theory Spec2Isabelle
  imports Main
begin

section \<open>Strings and the library operations the script relies on\<close>

text \<open>
  The script \<^verbatim>\<open>scripts/generate_todo_issues.py\<close> works on Python \<^verbatim>\<open>str\<close> values, which are
  sequences of code points. A \<^typ>\<open>char\<close> stands for one code point in the range 0..255,
  so \<^const>\<open>length\<close>, \<^const>\<open>take\<close> and \<^const>\<open>drop\<close> count what Python's \<^verbatim>\<open>len\<close> and slices count.
  The character classes below are those of Python for that range.
\<close>

abbreviation LF :: char where "LF \<equiv> CHR 0x0A"
abbreviation CR :: char where "CR \<equiv> CHR 0x0D"
abbreviation TAB :: char where "TAB \<equiv> CHR 0x09"
abbreviation BACKSLASH :: char where "BACKSLASH \<equiv> CHR 0x5C"

text \<open>\<^verbatim>\<open>str.isspace\<close> for one code point: the characters \<^verbatim>\<open>strip\<close> and \<^verbatim>\<open>rstrip\<close> remove.\<close>

definition py_isspace :: "char \<Rightarrow> bool" where
  "py_isspace c = (let n = (of_char c :: nat) in
     (9 \<le> n \<and> n \<le> 13) \<or> (28 \<le> n \<and> n \<le> 32) \<or> n = 133 \<or> n = 160)"

definition lstrip :: "string \<Rightarrow> string" where
  "lstrip s = dropWhile py_isspace s"

definition rstrip :: "string \<Rightarrow> string" where
  "rstrip s = rev (dropWhile py_isspace (rev s))"

definition strip :: "string \<Rightarrow> string" where
  "strip s = rstrip (lstrip s)"

text \<open>\<^verbatim>\<open>ln.rstrip('\n')\<close>: every trailing line feed is removed, nothing else.\<close>

definition rstrip_newline :: "string \<Rightarrow> string" where
  "rstrip_newline s = rev (dropWhile (\<lambda>c. c = LF) (rev s))"

text \<open>\<^verbatim>\<open>s.split(sep, maxsplit)\<close> for a one-character separator.\<close>

fun py_split :: "char \<Rightarrow> nat \<Rightarrow> string \<Rightarrow> string list" where
  "py_split sep 0 s = [s]"
| "py_split sep (Suc k) s =
     (case dropWhile (\<lambda>c. c \<noteq> sep) s of
        [] \<Rightarrow> [s]
      | _ # rest \<Rightarrow> takeWhile (\<lambda>c. c \<noteq> sep) s # py_split sep k rest)"

text \<open>\<^verbatim>\<open>sep.join(xs)\<close>.\<close>

fun py_join :: "string \<Rightarrow> string list \<Rightarrow> string" where
  "py_join sep [] = []"
| "py_join sep [x] = x"
| "py_join sep (x # y # ys) = x @ sep @ py_join sep (y # ys)"

text \<open>\<^verbatim>\<open>sub in s\<close> for strings: \<^verbatim>\<open>sub\<close> occurs in \<^verbatim>\<open>s\<close> as a contiguous run.\<close>

fun starts_with :: "string \<Rightarrow> string \<Rightarrow> bool" where
  "starts_with [] s = True"
| "starts_with (p # ps) [] = False"
| "starts_with (p # ps) (c # cs) = (p = c \<and> starts_with ps cs)"

fun py_in :: "string \<Rightarrow> string \<Rightarrow> bool" where
  "py_in sub [] = (sub = [])"
| "py_in sub (c # cs) = (starts_with sub (c # cs) \<or> py_in sub cs)"

subsection \<open>Integers and their decimal text\<close>

definition is_digit :: "char \<Rightarrow> bool" where
  "is_digit c = (let n = (of_char c :: nat) in 48 \<le> n \<and> n \<le> 57)"

definition digit_val :: "char \<Rightarrow> nat" where
  "digit_val c = of_char c - 48"

text \<open>
  The digits of \<^verbatim>\<open>int(s)\<close> in base 10: decimal digits, with single underscores allowed
  between two digits. The flag says that the previous character was a digit.
\<close>

fun py_digits :: "bool \<Rightarrow> nat \<Rightarrow> string \<Rightarrow> nat option" where
  "py_digits prev acc [] = (if prev then Some acc else None)"
| "py_digits prev acc (c # cs) =
     (if is_digit c then py_digits True (acc * 10 + digit_val c) cs
      else if c = CHR ''_'' \<and> prev then py_digits False acc cs
      else None)"

text \<open>
  The interpreter's limit on the digits of a decimal text (\<^verbatim>\<open>sys.int_info.default_max_str_digits\<close>):
  \<^verbatim>\<open>int\<close> raises \<^verbatim>\<open>ValueError\<close> on a text with more digit characters than this, leading zeros
  counted, sign and underscores not.
\<close>

definition int_max_str_digits :: nat where
  "int_max_str_digits = 4300"

text \<open>
  \<^verbatim>\<open>int(s)\<close> on a string that \<^verbatim>\<open>strip\<close> has already cleaned (the white space \<^verbatim>\<open>int\<close> would
  skip is gone): an optional sign, then the digits. \<^const>\<open>None\<close> is \<^verbatim>\<open>ValueError\<close>.
\<close>

definition py_int :: "string \<Rightarrow> int option" where
  "py_int s =
     (if int_max_str_digits < length (filter is_digit s) then None
      else
        (case s of
           [] \<Rightarrow> None
         | c # cs \<Rightarrow>
             if c = CHR ''-'' then map_option (\<lambda>n. - int n) (py_digits False 0 cs)
             else if c = CHR ''+'' then map_option int (py_digits False 0 cs)
             else map_option int (py_digits False 0 s)))"

definition digit_char :: "nat \<Rightarrow> char" where
  "digit_char d = ''0123456789'' ! d"

fun digits_of :: "nat \<Rightarrow> string" where
  "digits_of n =
     (if n < 10 then [digit_char n] else digits_of (n div 10) @ [digit_char (n mod 10)])"

text \<open>\<^verbatim>\<open>str(i)\<close> for an integer.\<close>

definition py_str :: "int \<Rightarrow> string" where
  "py_str i = (if i < 0 then CHR ''-'' # digits_of (nat (- i)) else digits_of (nat i))"

text \<open>\<^verbatim>\<open>f"{i:04d}"\<close> for the positive indices the script formats.\<close>

definition pad4 :: "nat \<Rightarrow> string" where
  "pad4 i = replicate (4 - length (digits_of i)) (CHR ''0'') @ digits_of i"

text \<open>\<^verbatim>\<open>enumerate(xs, start=i)\<close>.\<close>

fun py_enumerate :: "int \<Rightarrow> 'a list \<Rightarrow> (int \<times> 'a) list" where
  "py_enumerate i [] = []"
| "py_enumerate i (x # xs) = (i, x) # py_enumerate (i + 1) xs"

text \<open>
  \<^verbatim>\<open>xs[start:end]\<close>: a negative index counts from the end of the list, and both
  indices are then clipped to the list.
\<close>

definition py_slice :: "'a list \<Rightarrow> int \<Rightarrow> int \<Rightarrow> 'a list" where
  "py_slice xs start end =
     (let n = int (length xs);
          norm = (\<lambda>i. if i < 0 then max 0 (n + i) else min i n);
          s = norm start;
          e = norm end
      in take (nat (e - s)) (drop (nat s) xs))"

text \<open>\<^verbatim>\<open>str.lower\<close> on the ASCII words the script lowers, and the folding of \<^verbatim>\<open>re.I\<close>.\<close>

definition ascii_lower :: "char \<Rightarrow> char" where
  "ascii_lower c =
     (case map_of (zip ''ABCDEFGHIJKLMNOPQRSTUVWXYZ'' ''abcdefghijklmnopqrstuvwxyz'') c of
        None \<Rightarrow> c
      | Some l \<Rightarrow> l)"

definition lower :: "string \<Rightarrow> string" where
  "lower s = map ascii_lower s"

section \<open>The line parser\<close>

text \<open>
  \<^verbatim>\<open>parse_line\<close>: split on the first two colons; fewer than three parts give \<^const>\<open>None\<close>;
  the line number falls back to 0 on \<^verbatim>\<open>ValueError\<close>.
\<close>

definition parse_line :: "string \<Rightarrow> (string \<times> int \<times> string) option" where
  "parse_line line =
     (let parts = py_split (CHR '':'') 2 line in
      if length parts < 3 then None
      else
        let file_path = strip (parts ! 0);
            line_no = strip (parts ! 1);
            content = (if parts ! 2 \<noteq> [] then rstrip (parts ! 2) else [])
        in Some (file_path, (case py_int line_no of Some v \<Rightarrow> v | None \<Rightarrow> 0), content))"

section \<open>Marker detection\<close>

definition MARKERS :: "string list" where
  "MARKERS = [''TODO'', ''FIXME'', ''STUB'', ''placeholder'', ''Temporary'', ''hack'']"

text \<open>The \<^verbatim>\<open>for m in [...]: if m in content: marker = m; break\<close> loop.\<close>

fun find_marker :: "string list \<Rightarrow> string \<Rightarrow> string option" where
  "find_marker [] content = None"
| "find_marker (m # ms) content =
     (if py_in m content then Some m else find_marker ms content)"

text \<open>\<^verbatim>\<open>marker or 'NOTE'\<close>: \<^verbatim>\<open>None\<close> and the empty string both give the fallback.\<close>

definition marker_of :: "string \<Rightarrow> string" where
  "marker_of content =
     (case find_marker MARKERS content of
        None \<Rightarrow> ''NOTE''
      | Some m \<Rightarrow> if m = [] then ''NOTE'' else m)"

section \<open>The classifier\<close>

text \<open>
  Each pattern of \<^verbatim>\<open>PRIORITY_MAP\<close> is an alternation of literals, compiled with \<^verbatim>\<open>re.I\<close>;
  one alternative, \<^verbatim>\<open>mm\b\<close>, ends in a word boundary. \<^verbatim>\<open>Lit\<close> is a literal and \<^verbatim>\<open>LitB\<close> a
  (non-empty) literal followed by the boundary.
\<close>

datatype alt = Lit string | LitB string

type_synonym regex = "alt list"

text \<open>The class \<^verbatim>\<open>\w\<close> of a \<^verbatim>\<open>str\<close> pattern, on the code points below 256.\<close>

definition is_word_char :: "char \<Rightarrow> bool" where
  "is_word_char c = (let n = (of_char c :: nat) in
     (48 \<le> n \<and> n \<le> 57) \<or> (65 \<le> n \<and> n \<le> 90) \<or> n = 95 \<or> (97 \<le> n \<and> n \<le> 122) \<or>
     n = 170 \<or> n = 178 \<or> n = 179 \<or> n = 181 \<or> n = 185 \<or> n = 186 \<or>
     (188 \<le> n \<and> n \<le> 190) \<or> (192 \<le> n \<and> n \<le> 214) \<or> (216 \<le> n \<and> n \<le> 246) \<or> 248 \<le> n)"

text \<open>A literal matches at the head of the text, letters compared without case.\<close>

fun ci_starts_with :: "string \<Rightarrow> string \<Rightarrow> bool" where
  "ci_starts_with [] s = True"
| "ci_starts_with (p # ps) [] = False"
| "ci_starts_with (p # ps) (c # cs) = (ascii_lower p = ascii_lower c \<and> ci_starts_with ps cs)"

text \<open>\<^verbatim>\<open>\b\<close> between the matched text and what follows it.\<close>

definition word_boundary :: "string \<Rightarrow> string \<Rightarrow> bool" where
  "word_boundary matched rest =
     ((matched \<noteq> [] \<and> is_word_char (last matched)) \<noteq> (rest \<noteq> [] \<and> is_word_char (hd rest)))"

fun alt_match :: "alt \<Rightarrow> string \<Rightarrow> bool" where
  "alt_match (Lit l) s = ci_starts_with l s"
| "alt_match (LitB l) s =
     (ci_starts_with l s \<and> word_boundary (take (length l) s) (drop (length l) s))"

definition rx_match_here :: "regex \<Rightarrow> string \<Rightarrow> bool" where
  "rx_match_here rx s = list_ex (\<lambda>a. alt_match a s) rx"

text \<open>\<^verbatim>\<open>rx.search(s)\<close> as a truth value: some alternative matches at some position.\<close>

fun rx_search :: "regex \<Rightarrow> string \<Rightarrow> bool" where
  "rx_search rx [] = rx_match_here rx []"
| "rx_search rx (c # cs) = (rx_match_here rx (c # cs) \<or> rx_search rx cs)"

type_synonym rule = "regex \<times> string \<times> string \<times> int"

definition PRIORITY_MAP :: "rule list" where
  "PRIORITY_MAP =
    [([Lit ''syscalls'', Lit ''process'', Lit ''thread'', Lit ''signal'', Lit ''futex'',
       Lit ''sched'', Lit ''execve'', Lit ''fork'', Lit ''waitpid''],
      ''Critical'', ''Kernel Engineer'', 40),
     ([Lit ''vfs'', Lit ''fs'', Lit ''inode'', Lit ''directory'', Lit ''ext4''],
      ''Critical'', ''Filesystems Engineer'', 40),
     ([Lit ''memory'', Lit ''mmap'', Lit ''mincore'', Lit ''mlock'', Lit ''munlock'',
       Lit ''page'', LitB ''mm'', Lit ''advanced_mmap''],
      ''High'', ''Memory/MM Engineer'', 32),
     ([Lit ''security'', Lit ''permission'', Lit ''seccomp'', Lit ''selinux'', Lit ''aslr'',
       Lit ''smap'', Lit ''smep'', Lit ''cap''],
      ''Critical'', ''Security Engineer'', 40),
     ([Lit ''driver'', Lit ''virtio'', Lit ''device_manager'', Lit ''driver binding'',
       Lit ''probe''],
      ''High'', ''Driver Engineer'', 36),
     ([Lit ''zero_copy'', Lit ''io_uring'', Lit ''splice'', Lit ''sendfile'',
       Lit ''performance'', Lit ''benchmark''],
      ''Medium'', ''Performance Engineer'', 24),
     ([Lit ''graphics'', Lit ''gui'', Lit ''input'', Lit ''hit testing''],
      ''Low'', ''Graphics Engineer'', 16),
     ([Lit ''test'', Lit ''placeholder'', Lit ''integration_test'', Lit ''bench''],
      ''Low'', ''QA/Tester'', 8)]"

text \<open>The \<^verbatim>\<open>for rx, pr, owner, hrs in PRIORITY_MAP\<close> loop with its fall-through default.\<close>

fun guess_loop :: "rule list \<Rightarrow> string \<Rightarrow> string \<times> string \<times> int" where
  "guess_loop [] ctx = (''Medium'', ''Engineer'', 16)"
| "guess_loop ((rx, pr, owner, hrs) # rest) ctx =
     (if rx_search rx ctx then (pr, owner, hrs) else guess_loop rest ctx)"

definition guess_props :: "string \<Rightarrow> string \<Rightarrow> string \<times> string \<times> int" where
  "guess_props path text = guess_loop PRIORITY_MAP (path @ '' '' @ text)"

section \<open>The context snippet\<close>

text \<open>
  What the file system answers for a path of the report: \<^verbatim>\<open>exists()\<close> is false; \<^verbatim>\<open>exists()\<close>
  itself raises (a path component that is too long, a directory that may not be searched),
  with the exception's text; the file exists and reading it raises; or the file is read and
  gives its \<^verbatim>\<open>splitlines()\<close>.
\<close>

datatype src_file = NotFound | ExistsFails string | ReadFails string | Lines "string list"

definition context_snippet :: "string list \<Rightarrow> int \<Rightarrow> string" where
  "context_snippet all_lines line_no =
     (let start = max 0 (line_no - 4);
          end = min (int (length all_lines)) (line_no + 3);
          snippet = py_slice all_lines start end
      in py_join [LF] (map (\<lambda>(i, s). py_str (i + 1) @ '': '' @ s) (py_enumerate start snippet)))"

text \<open>
  The \<^verbatim>\<open>if abs_file.exists(): try ... except ... else ...\<close> block. The call of \<^verbatim>\<open>exists()\<close> is
  outside the \<^verbatim>\<open>try\<close>: when it raises, the exception leaves \<^verbatim>\<open>main\<close> (\<^const>\<open>Inl\<close>).
\<close>

definition fetch_context :: "src_file \<Rightarrow> int \<Rightarrow> string + string" where
  "fetch_context f line_no =
     (case f of
        ExistsFails e \<Rightarrow> Inl e
      | Lines all_lines \<Rightarrow> Inr (context_snippet all_lines line_no)
      | ReadFails e \<Rightarrow> Inr (''(failed to read file: '' @ e @ '')'')
      | NotFound \<Rightarrow> Inr ''(file not found)'')"

section \<open>Findings\<close>

text \<open>The dictionary appended to \<^verbatim>\<open>items\<close>, one field per key.\<close>

record item =
  i_file :: string
  i_line :: int
  i_marker :: string
  i_content :: string
  i_context :: string
  i_priority :: string
  i_owner :: string
  i_estimate_hours :: int
  i_labels :: string

definition make_item :: "(string \<Rightarrow> src_file) \<Rightarrow> string \<times> int \<times> string \<Rightarrow> string + item" where
  "make_item fs parsed =
     (case parsed of (file_path, line_no, content) \<Rightarrow>
        let marker = marker_of content in
        (case fetch_context (fs file_path) line_no of
           Inl e \<Rightarrow> Inl e
         | Inr ctx_snippet \<Rightarrow>
             (case guess_props file_path content of
                (suggested_priority, suggested_owner_role, suggested_estimate_hours) \<Rightarrow>
                  let suggested_labels = [lower suggested_priority, lower marker]
                  in Inr \<lparr>i_file = file_path, i_line = line_no, i_marker = marker,
                          i_content = strip content, i_context = ctx_snippet,
                          i_priority = suggested_priority, i_owner = suggested_owner_role,
                          i_estimate_hours = suggested_estimate_hours,
                          i_labels = py_join '';'' suggested_labels\<rparr>)))"

text \<open>
  The reading loop of \<^verbatim>\<open>main\<close> over the lines the report yields: a line that is empty
  once its line feed is gone is skipped, so is a line \<^verbatim>\<open>parse_line\<close> rejects. An exception
  of \<^verbatim>\<open>exists()\<close> ends the loop and the run.
\<close>

fun collect :: "(string \<Rightarrow> src_file) \<Rightarrow> string list \<Rightarrow> string + item list" where
  "collect fs [] = Inr []"
| "collect fs (ln # rest) =
     (let ln' = rstrip_newline ln in
      if ln' = [] then collect fs rest
      else (case parse_line ln' of
              None \<Rightarrow> collect fs rest
            | Some parsed \<Rightarrow>
                (case make_item fs parsed of
                   Inl e \<Rightarrow> Inl e
                 | Inr item \<Rightarrow>
                     (case collect fs rest of
                        Inl e \<Rightarrow> Inl e
                      | Inr items \<Rightarrow> Inr (item # items)))))"

section \<open>Safe titles\<close>

text \<open>
  \<^verbatim>\<open>re.sub\<close> with a pattern \<^verbatim>\<open>[class]+\<close>: every maximal run of characters of the class is
  replaced by the replacement text.
\<close>

function re_sub_runs :: "(char \<Rightarrow> bool) \<Rightarrow> string \<Rightarrow> string \<Rightarrow> string" where
  "re_sub_runs P repl [] = []"
| "re_sub_runs P repl (c # cs) =
     (if P c then repl @ re_sub_runs P repl (dropWhile P cs) else c # re_sub_runs P repl cs)"
  by pat_completeness auto
termination
  by (relation "measure (\<lambda>(P, repl, s). length s)") (auto simp: length_dropWhile_le less_Suc_eq_le)

text \<open>The characters the class \<^verbatim>\<open>[^0-9A-Za-z-_ ]\<close> leaves alone.\<close>

definition title_char :: "char \<Rightarrow> bool" where
  "title_char c = (let n = (of_char c :: nat) in
     (48 \<le> n \<and> n \<le> 57) \<or> (65 \<le> n \<and> n \<le> 90) \<or> (97 \<le> n \<and> n \<le> 122) \<or>
     c = CHR ''-'' \<or> c = CHR ''_'' \<or> c = CHR '' '')"

definition sanitize_title :: "string \<Rightarrow> string" where
  "sanitize_title text =
     (let t = strip (re_sub_runs (\<lambda>c. \<not> title_char c) [] text);
          t = re_sub_runs (\<lambda>c. c = CHR '' '' \<or> c = TAB) '' '' t;
          t = (if length t > 60 then rstrip (take 60 t) else t)
      in if t = [] then ''todo''
         else map (\<lambda>c. if c = CHR '' '' then CHR ''_'' else c) t)"

section \<open>The tabular output\<close>

text \<open>
  \<^verbatim>\<open>csv.DictWriter\<close> with the default dialect: comma, double quote, minimal quoting,
  quotes doubled, rows ended by carriage return and line feed. A field is quoted when it
  holds the delimiter, the quote or a character of the line terminator.
\<close>

abbreviation DQUOTE :: char where "DQUOTE \<equiv> CHR 0x22"

definition csv_special :: "char \<Rightarrow> bool" where
  "csv_special c = (c = CHR '','' \<or> c = DQUOTE \<or> c = CR \<or> c = LF)"

definition csv_escape :: "string \<Rightarrow> string" where
  "csv_escape s = concat (map (\<lambda>c. if c = DQUOTE then [DQUOTE, DQUOTE] else [c]) s)"

definition csv_field :: "string \<Rightarrow> string" where
  "csv_field s = (if list_ex csv_special s then DQUOTE # csv_escape s @ [DQUOTE] else s)"

text \<open>A row that would come out empty (one empty field) is written as a pair of quotes.\<close>

definition csv_row :: "string list \<Rightarrow> string" where
  "csv_row row =
     (if row = [[]] then [DQUOTE, DQUOTE] else py_join '','' (map csv_field row)) @ [CR, LF]"

definition fieldnames :: "string list" where
  "fieldnames = [''id'', ''file'', ''line'', ''marker'', ''content'', ''context'', ''priority'',
     ''owner'', ''estimate_hours'', ''labels'']"

text \<open>The values of \<^verbatim>\<open>item_row\<close> in the order of \<^const>\<open>fieldnames\<close>, numbers as \<^verbatim>\<open>str\<close> writes them.\<close>

definition row_values :: "int \<Rightarrow> item \<Rightarrow> string list" where
  "row_values i item =
     [py_str i, i_file item, py_str (i_line item), i_marker item, i_content item,
      i_context item, i_priority item, i_owner item, py_str (i_estimate_hours item),
      i_labels item]"

definition csv_rows :: "item list \<Rightarrow> string list list" where
  "csv_rows items = map (\<lambda>(i, item). row_values i item) (py_enumerate 1 items)"

definition csv_text :: "item list \<Rightarrow> string" where
  "csv_text items = csv_row fieldnames @ concat (map csv_row (csv_rows items))"

section \<open>The documents\<close>

definition idstr :: "int \<Rightarrow> string" where
  "idstr i = pad4 (nat i)"

definition doc_title :: "item \<Rightarrow> string" where
  "doc_title item =
     (if i_content item \<noteq> [] then i_content item
      else ''TODO in '' @ i_file item @ '':'' @ py_str (i_line item))"

text \<open>
  \<^verbatim>\<open>dir / name\<close> as a text, for an absolute directory in the form \<^verbatim>\<open>resolve()\<close> gives it and
  a name of one part: the root directory already ends in the separator.
\<close>

definition path_join :: "string \<Rightarrow> string \<Rightarrow> string" where
  "path_join dir name = (if dir = ''/'' then dir @ name else dir @ ''/'' @ name)"

definition doc_filename :: "string \<Rightarrow> int \<Rightarrow> item \<Rightarrow> string" where
  "doc_filename outdir i item =
     path_join outdir (idstr i @ ''-'' @ sanitize_title (take 80 (i_content item)) @ ''.md'')"

definition doc_body :: "int \<Rightarrow> item \<Rightarrow> string" where
  "doc_body i item =
     ''# ['' @ idstr i @ ''] '' @ doc_title item @ [LF, LF] @
     ''**File:** `'' @ i_file item @ ''`'' @ [LF] @
     ''**Line:** '' @ py_str (i_line item) @ [LF] @
     ''**Marker:** '' @ i_marker item @ [LF] @
     ''**Suggested Priority:** '' @ i_priority item @ [LF] @
     ''**Suggested Owner Role:** '' @ i_owner item @ [LF] @
     ''**Suggested Estimate (hours):** '' @ py_str (i_estimate_hours item) @ [LF] @
     ''**Suggested Labels:** `'' @ i_labels item @ ''`'' @ [LF, LF] @
     ''## Context'' @ [LF, LF] @ ''```'' @ [LF] @
     i_context item @ [LF] @
     ''```'' @ [LF, LF] @
     ''## Recommended next steps'' @ [LF] @
     ''- Confirm the owner and adjust scope estimate'' @ [BACKSLASH] @
     ''- Add unit/integration tests to cover intended behavior'' @ [LF] @
     ''- Produce a PR that either implements the missing behavior or documents a migration if it's a stub'' @ [LF]"

section \<open>The run\<close>

text \<open>
  What a run does to the outside world, in order. The text of the index document is
  fixed and is not carried.
\<close>

datatype action =
    Print string
  | MakeDirs string
  | WriteCsv string string
  | WriteDoc string string
  | WriteReadme string

text \<open>
  The report as the run finds it: \<^verbatim>\<open>INPUT.exists()\<close> is false; \<^verbatim>\<open>exists()\<close> raises; the file
  exists and opening or reading it raises; or it yields its lines.
\<close>

datatype report_file =
    Absent
  | ReportExistsFails string
  | ReportReadFails string
  | Report "string list"

text \<open>
  The environment of a run: the project root the script computes from its own location, the
  report, the source files of the project, and for each write of the run the text of the
  exception it raises, if it raises.
\<close>

record env =
  e_root :: string
  e_report :: report_file
  e_fs :: "string \<Rightarrow> src_file"
  e_mkdir_error :: "string option"
  e_csv_error :: "string option"
  e_write_error :: "string \<Rightarrow> string option"
  e_readme_error :: "string option"

definition INPUT :: "string \<Rightarrow> string" where
  "INPUT root = path_join (path_join root ''docs'') ''TODO_GREP_OUTPUT.txt''"

definition OUTDIR :: "string \<Rightarrow> string" where
  "OUTDIR root = path_join (path_join root ''docs'') ''issues''"

definition OUTCSV :: "string \<Rightarrow> string" where
  "OUTCSV root = path_join (OUTDIR root) ''todos.csv''"

text \<open>
  One document: the write, or the message of the \<^verbatim>\<open>except\<close> branch when the write raises.
\<close>

definition write_doc :: "string \<Rightarrow> (string \<Rightarrow> string option) \<Rightarrow> int \<times> item \<Rightarrow> action" where
  "write_doc root write_error p =
     (case p of (i, item) \<Rightarrow>
        let filename = doc_filename (OUTDIR root) i item;
            body = doc_body i item
        in (case write_error filename of
              None \<Rightarrow> WriteDoc filename body
            | Some e \<Rightarrow> Print (''Failed writing '' @ filename @ '' '' @ e)))"

text \<open>
  A run gives the actions it performed and the exception that ended it, if one did.
  First the part of \<^verbatim>\<open>main\<close> after the reading loop: the table, the documents, the index
  document and the closing message.
\<close>

definition render :: "env \<Rightarrow> item list \<Rightarrow> action list \<times> string option" where
  "render env items =
     (case e_csv_error env of
        Some e \<Rightarrow> ([], Some e)
      | None \<Rightarrow>
          let written =
                WriteCsv (OUTCSV (e_root env)) (csv_text items) #
                map (write_doc (e_root env) (e_write_error env)) (py_enumerate 1 items)
          in (case e_readme_error env of
                Some e \<Rightarrow> (written, Some e)
              | None \<Rightarrow>
                  (written @
                   [WriteReadme (path_join (OUTDIR (e_root env)) ''README.md''),
                    Print (''Done: '' @ py_str (int (length items)) @ '' items -> '' @
                           OUTCSV (e_root env) @ [LF] @
                           ''Per-item markdown files under '' @ OUTDIR (e_root env))],
                   None)))"

text \<open>\<^verbatim>\<open>ensure_outdir()\<close> and everything after it; the argument is what reading the report gave.\<close>

definition process :: "env \<Rightarrow> string + string list \<Rightarrow> action list \<times> string option" where
  "process env read =
     (case e_mkdir_error env of
        Some e \<Rightarrow> ([], Some e)
      | None \<Rightarrow>
          (case read of
             Inl e \<Rightarrow> ([MakeDirs (OUTDIR (e_root env))], Some e)
           | Inr lns \<Rightarrow>
               (case collect (e_fs env) lns of
                  Inl e \<Rightarrow> ([MakeDirs (OUTDIR (e_root env))], Some e)
                | Inr items \<Rightarrow>
                    (case render env items of
                       (acts, exc) \<Rightarrow> (MakeDirs (OUTDIR (e_root env)) # acts, exc)))))"

text \<open>\<^verbatim>\<open>main\<close>.\<close>

definition main :: "env \<Rightarrow> action list \<times> string option" where
  "main env =
     (case e_report env of
        ReportExistsFails e \<Rightarrow> ([], Some e)
      | Absent \<Rightarrow> ([Print (''Input file not found: '' @ INPUT (e_root env))], None)
      | ReportReadFails e \<Rightarrow> process env (Inl e)
      | Report lns \<Rightarrow> process env (Inr lns))"

definition writes_output :: "action \<Rightarrow> bool" where
  "writes_output a = (case a of Print _ \<Rightarrow> False | _ \<Rightarrow> True)"

section \<open>Reading the tabular output back\<close>














section \<open>Marker detection: the first literal in list order\<close>

lemma starts_with_iff: "starts_with p s \<longleftrightarrow> (\<exists>b. s = p @ b)"
  by (induction p s rule: starts_with.induct) auto

lemma py_in_iff: "py_in sub s \<longleftrightarrow> (\<exists>a b. s = a @ sub @ b)"
proof (induction s)
  case Nil
  then show ?case by auto
next
  case (Cons c cs)
  show ?case
  proof
    assume "py_in sub (c # cs)"
    then consider "starts_with sub (c # cs)" | "py_in sub cs" by auto
    then show "\<exists>a b. c # cs = a @ sub @ b"
    proof cases
      case 1
      then obtain b where "c # cs = sub @ b" by (auto simp: starts_with_iff)
      then have "c # cs = [] @ sub @ b" by simp
      then show ?thesis by blast
    next
      case 2
      then obtain a b where "cs = a @ sub @ b" using Cons.IH by auto
      then have "c # cs = (c # a) @ sub @ b" by simp
      then show ?thesis by blast
    qed
  next
    assume "\<exists>a b. c # cs = a @ sub @ b"
    then obtain a b where ab: "c # cs = a @ sub @ b" by blast
    show "py_in sub (c # cs)"
    proof (cases a)
      case Nil
      with ab have "starts_with sub (c # cs)" by (auto simp: starts_with_iff)
      then show ?thesis by simp
    next
      case (Cons x a')
      with ab have "cs = a' @ sub @ b" by simp
      then have "py_in sub cs" using Cons.IH by blast
      then show ?thesis by simp
    qed
  qed
qed

lemma find_marker_None: "find_marker ms t = None \<longleftrightarrow> (\<forall>m \<in> set ms. \<not> py_in m t)"
  by (induction ms) auto

lemma find_marker_first:
  "i < length ms \<Longrightarrow> py_in (ms ! i) t \<Longrightarrow> (\<forall>j < i. \<not> py_in (ms ! j) t) \<Longrightarrow>
     find_marker ms t = Some (ms ! i)"
proof (induction ms arbitrary: i)
  case Nil
  then show ?case by simp
next
  case (Cons a ms)
  show ?case
  proof (cases i)
    case 0
    with Cons.prems show ?thesis by simp
  next
    case (Suc k)
    with Cons.prems have na: "\<not> py_in a t" by auto
    from Suc Cons.prems have "k < length ms" "py_in (ms ! k) t" "\<forall>j < k. \<not> py_in (ms ! j) t"
      by auto
    then have "find_marker ms t = Some (ms ! k)" by (rule Cons.IH)
    with na Suc show ?thesis by simp
  qed
qed

lemma find_marker_mem: "find_marker ms t = Some m \<Longrightarrow> m \<in> set ms"
  by (induction ms) (auto split: if_splits)

text \<open>
  C2. The marker of an annotation text is the first literal of the ordered list
  TODO, FIXME, STUB, placeholder, Temporary, hack that occurs in the text as a
  case-sensitive substring; it is NOTE exactly when none of the six occurs, and no other
  value is possible.
\<close>

theorem marker_first_literal:
  "MARKERS = [''TODO'', ''FIXME'', ''STUB'', ''placeholder'', ''Temporary'', ''hack''] \<and>
   (marker_of t = ''NOTE'' \<longleftrightarrow> (\<forall>m \<in> set MARKERS. \<not> (\<exists>a b. t = a @ m @ b))) \<and>
   (\<forall>i < length MARKERS.
      (\<exists>a b. t = a @ MARKERS ! i @ b) \<and> (\<forall>j < i. \<not> (\<exists>a b. t = a @ MARKERS ! j @ b))
      \<longrightarrow> marker_of t = MARKERS ! i) \<and>
   marker_of t \<in> set MARKERS \<union> {''NOTE''}"
proof (intro conjI)
  show "MARKERS = [''TODO'', ''FIXME'', ''STUB'', ''placeholder'', ''Temporary'', ''hack'']"
    by (simp add: MARKERS_def)
next
  have ne: "\<And>m. m \<in> set MARKERS \<Longrightarrow> m \<noteq> [] \<and> m \<noteq> ''NOTE''"
    by (auto simp: MARKERS_def)
  show "marker_of t = ''NOTE'' \<longleftrightarrow> (\<forall>m \<in> set MARKERS. \<not> (\<exists>a b. t = a @ m @ b))"
  proof (cases "find_marker MARKERS t")
    case None
    then show ?thesis
      using find_marker_None[of MARKERS t] by (simp add: marker_of_def py_in_iff)
  next
    case (Some m)
    then have m: "m \<in> set MARKERS" by (rule find_marker_mem)
    from Some have "\<not> (\<forall>m \<in> set MARKERS. \<not> py_in m t)"
      using find_marker_None[of MARKERS t] by simp
    moreover from Some m ne have "marker_of t \<noteq> ''NOTE''" by (simp add: marker_of_def)
    ultimately show ?thesis by (simp add: py_in_iff)
  qed
next
  show "\<forall>i < length MARKERS.
      (\<exists>a b. t = a @ MARKERS ! i @ b) \<and> (\<forall>j < i. \<not> (\<exists>a b. t = a @ MARKERS ! j @ b))
      \<longrightarrow> marker_of t = MARKERS ! i"
  proof (intro allI impI)
    fix i
    assume i: "i < length MARKERS"
      and h: "(\<exists>a b. t = a @ MARKERS ! i @ b) \<and> (\<forall>j < i. \<not> (\<exists>a b. t = a @ MARKERS ! j @ b))"
    then have "find_marker MARKERS t = Some (MARKERS ! i)"
      by (intro find_marker_first) (simp_all add: py_in_iff)
    moreover from i have "MARKERS ! i \<noteq> []"
      by (auto simp: MARKERS_def less_Suc_eq numeral_eq_Suc)
    ultimately show "marker_of t = MARKERS ! i" by (simp add: marker_of_def)
  qed
next
  show "marker_of t \<in> set MARKERS \<union> {''NOTE''}"
    by (cases "find_marker MARKERS t") (auto simp: marker_of_def dest: find_marker_mem)
qed

theorem marker_first_literal_witness:
  "marker_of ''a hack for the TODO'' = ''TODO'' \<and> marker_of ''plain remark'' = ''NOTE''"
proof -
  have i: "(0::nat) < length MARKERS" by (simp add: MARKERS_def)
  have "''a hack for the TODO'' = ''a hack for the '' @ MARKERS ! 0 @ []"
    by (simp add: MARKERS_def)
  then have a: "\<exists>a b. ''a hack for the TODO'' = a @ MARKERS ! 0 @ b" by blast
  have "\<forall>i < length MARKERS.
      (\<exists>a b. ''a hack for the TODO'' = a @ MARKERS ! i @ b) \<and>
      (\<forall>j < i. \<not> (\<exists>a b. ''a hack for the TODO'' = a @ MARKERS ! j @ b))
      \<longrightarrow> marker_of ''a hack for the TODO'' = MARKERS ! i"
    using marker_first_literal[of "''a hack for the TODO''"] by blast
  with i a have "marker_of ''a hack for the TODO'' = MARKERS ! 0" by blast
  then have 1: "marker_of ''a hack for the TODO'' = ''TODO''" by (simp add: MARKERS_def)
  have "\<forall>m \<in> set MARKERS. \<not> py_in m ''plain remark''" by (simp add: MARKERS_def)
  then have b: "\<forall>m \<in> set MARKERS. \<not> (\<exists>a b. ''plain remark'' = a @ m @ b)"
    unfolding py_in_iff .
  have "marker_of ''plain remark'' = ''NOTE'' \<longleftrightarrow>
        (\<forall>m \<in> set MARKERS. \<not> (\<exists>a b. ''plain remark'' = a @ m @ b))"
    using marker_first_literal[of "''plain remark''"] by blast
  with b have 2: "marker_of ''plain remark'' = ''NOTE''" by blast
  from 1 2 show ?thesis by blast
qed

section \<open>The classifier: the first matching rule wins\<close>

lemma guess_loop_first:
  "i < length rules \<Longrightarrow> rx_search (fst (rules ! i)) ctx \<Longrightarrow>
   (\<forall>j < i. \<not> rx_search (fst (rules ! j)) ctx) \<Longrightarrow>
   guess_loop rules ctx = snd (rules ! i)"
proof (induction rules ctx arbitrary: i rule: guess_loop.induct)
  case (1 ctx)
  then show ?case by simp
next
  case (2 rx pr owner hrs rest ctx)
  show ?case
  proof (cases i)
    case 0
    with "2.prems" show ?thesis by simp
  next
    case (Suc k)
    with "2.prems" have no: "\<not> rx_search rx ctx" by auto
    from Suc "2.prems" have "k < length rest" "rx_search (fst (rest ! k)) ctx"
      "\<forall>j < k. \<not> rx_search (fst (rest ! j)) ctx" by auto
    with no have "guess_loop rest ctx = snd (rest ! k)" by (intro "2.IH") auto
    with no Suc show ?thesis by simp
  qed
qed

lemma guess_loop_default:
  "(\<forall>i < length rules. \<not> rx_search (fst (rules ! i)) ctx) \<Longrightarrow>
   guess_loop rules ctx = (''Medium'', ''Engineer'', 16)"
proof (induction rules ctx rule: guess_loop.induct)
  case (1 ctx)
  then show ?case by simp
next
  case (2 rx pr owner hrs rest ctx)
  from "2.prems" have no: "\<not> rx_search rx ctx" by fastforce
  from "2.prems" have "\<forall>i < length rest. \<not> rx_search (fst (rest ! i)) ctx" by fastforce
  with no "2.IH" show ?case by simp
qed

lemma PRIORITY_MAP_length: "length PRIORITY_MAP = 8"
  by (simp add: PRIORITY_MAP_def)

lemma ascii_lower_idem: "ascii_lower (ascii_lower c) = ascii_lower c"
  by (simp add: ascii_lower_def)

lemma is_word_char_lower: "is_word_char (ascii_lower c) = is_word_char c"
  by (simp add: ascii_lower_def is_word_char_def)

lemma ci_starts_with_lower: "ci_starts_with l (lower s) = ci_starts_with l s"
  by (induction l s rule: ci_starts_with.induct) (simp_all add: lower_def ascii_lower_idem)

lemma word_boundary_lower: "word_boundary (lower a) (lower b) = word_boundary a b"
  by (cases b; cases a rule: rev_cases) (simp_all add: word_boundary_def lower_def is_word_char_lower)

lemma alt_match_lower: "alt_match a (lower s) = alt_match a s"
proof (cases a)
  case (Lit l)
  then show ?thesis by (simp add: ci_starts_with_lower)
next
  case (LitB l)
  have "take (length l) (lower s) = lower (take (length l) s)"
    "drop (length l) (lower s) = lower (drop (length l) s)"
    by (simp_all add: lower_def take_map drop_map)
  with LitB show ?thesis by (simp add: ci_starts_with_lower word_boundary_lower)
qed

lemma rx_match_here_lower: "rx_match_here rx (lower s) = rx_match_here rx s"
  by (simp add: rx_match_here_def alt_match_lower)

lemma rx_search_lower: "rx_search rx (lower s) = rx_search rx s"
proof (induction s)
  case Nil
  then show ?case by (simp add: lower_def)
next
  case (Cons c cs)
  have "rx_match_here rx (lower (c # cs)) = rx_match_here rx (c # cs)"
    by (rule rx_match_here_lower)
  with Cons show ?case by (simp add: lower_def)
qed

lemma guess_loop_lower: "guess_loop rules (lower ctx) = guess_loop rules ctx"
  by (induction rules ctx rule: guess_loop.induct) (simp_all add: rx_search_lower)

lemma guess_props_lower: "guess_props (lower path) (lower text) = guess_props path text"
proof -
  have "lower path @ '' '' @ lower text = lower (path @ '' '' @ text)"
    by (simp add: lower_def ascii_lower_def)
  then show ?thesis by (simp add: guess_props_def guess_loop_lower)
qed

text \<open>
  C1. The classifier tries the eight rules of the table in order on the path, a space
  and the text, letters compared without case, and returns the triple of the first rule
  whose pattern is found; an input that matches rule 1 and rule 5 gets rule 1's triple
  (Critical, Kernel Engineer, 40); when no rule matches the result is
  (Medium, Engineer, 16).
\<close>

theorem guess_props_first_match:
  "length PRIORITY_MAP = 8 \<and>
   (\<forall>i < 8. rx_search (fst (PRIORITY_MAP ! i)) (path @ '' '' @ text) \<and>
        (\<forall>j < i. \<not> rx_search (fst (PRIORITY_MAP ! j)) (path @ '' '' @ text))
      \<longrightarrow> guess_props path text = snd (PRIORITY_MAP ! i)) \<and>
   (rx_search (fst (PRIORITY_MAP ! 0)) (path @ '' '' @ text) \<and>
    rx_search (fst (PRIORITY_MAP ! 4)) (path @ '' '' @ text)
      \<longrightarrow> guess_props path text = (''Critical'', ''Kernel Engineer'', 40)) \<and>
   ((\<forall>i < 8. \<not> rx_search (fst (PRIORITY_MAP ! i)) (path @ '' '' @ text))
      \<longrightarrow> guess_props path text = (''Medium'', ''Engineer'', 16)) \<and>
   guess_props (lower path) (lower text) = guess_props path text"
proof (intro conjI allI impI)
  show "length PRIORITY_MAP = 8" by (rule PRIORITY_MAP_length)
next
  fix i :: nat
  assume "i < 8"
    and "rx_search (fst (PRIORITY_MAP ! i)) (path @ '' '' @ text) \<and>
        (\<forall>j < i. \<not> rx_search (fst (PRIORITY_MAP ! j)) (path @ '' '' @ text))"
  then show "guess_props path text = snd (PRIORITY_MAP ! i)"
    unfolding guess_props_def by (intro guess_loop_first) (simp_all add: PRIORITY_MAP_length)
next
  assume "rx_search (fst (PRIORITY_MAP ! 0)) (path @ '' '' @ text) \<and>
    rx_search (fst (PRIORITY_MAP ! 4)) (path @ '' '' @ text)"
  then have "guess_loop PRIORITY_MAP (path @ '' '' @ text) = snd (PRIORITY_MAP ! 0)"
    by (intro guess_loop_first) (simp_all add: PRIORITY_MAP_length)
  then show "guess_props path text = (''Critical'', ''Kernel Engineer'', 40)"
    by (simp add: guess_props_def PRIORITY_MAP_def)
next
  assume "\<forall>i < 8. \<not> rx_search (fst (PRIORITY_MAP ! i)) (path @ '' '' @ text)"
  then show "guess_props path text = (''Medium'', ''Engineer'', 16)"
    unfolding guess_props_def by (intro guess_loop_default) (simp add: PRIORITY_MAP_length)
next
  show "guess_props (lower path) (lower text) = guess_props path text"
    by (rule guess_props_lower)
qed

theorem guess_props_first_match_witness:
  "rx_search (fst (PRIORITY_MAP ! 0)) (''drivers/SCHED_driver.c'' @ '' '' @ ''// TODO probe'') \<and>
   rx_search (fst (PRIORITY_MAP ! 4)) (''drivers/SCHED_driver.c'' @ '' '' @ ''// TODO probe'') \<and>
   guess_props ''drivers/SCHED_driver.c'' ''// TODO probe'' = (''Critical'', ''Kernel Engineer'', 40)"
proof -
  have h0: "rx_search (fst (PRIORITY_MAP ! 0)) (''drivers/SCHED_driver.c'' @ '' '' @ ''// TODO probe'')"
    by code_simp
  have h4: "rx_search (fst (PRIORITY_MAP ! 4)) (''drivers/SCHED_driver.c'' @ '' '' @ ''// TODO probe'')"
    by code_simp
  have "rx_search (fst (PRIORITY_MAP ! 0)) (''drivers/SCHED_driver.c'' @ '' '' @ ''// TODO probe'') \<and>
        rx_search (fst (PRIORITY_MAP ! 4)) (''drivers/SCHED_driver.c'' @ '' '' @ ''// TODO probe'')
        \<longrightarrow> guess_props ''drivers/SCHED_driver.c'' ''// TODO probe'' = (''Critical'', ''Kernel Engineer'', 40)"
    using guess_props_first_match[of "''drivers/SCHED_driver.c''" "''// TODO probe''"] by blast
  with h0 h4 show ?thesis by blast
qed

text \<open>
  C1, the text the rules are tried on. The claim has the rules tried on the concatenation
  of path and text. The code joins the two with one space, and the space changes the
  outcome: for the path \<^verbatim>\<open>hit\<close> and the text \<^verbatim>\<open>testing\<close> the joined text holds \<^verbatim>\<open>hit testing\<close>
  of rule 7, which the plain concatenation \<^verbatim>\<open>hittesting\<close> does not, so that rule 8 would be
  the first to match there.
\<close>

theorem guess_props_concat_counterexample:
  "guess_props ''hit'' ''testing'' = (''Low'', ''Graphics Engineer'', 16) \<and>
   guess_loop PRIORITY_MAP (''hit'' @ ''testing'') = (''Low'', ''QA/Tester'', 8) \<and>
   guess_props ''kernel/mm'' ''x'' = (''High'', ''Memory/MM Engineer'', 32) \<and>
   guess_loop PRIORITY_MAP (''kernel/mm'' @ ''x'') = (''Medium'', ''Engineer'', 16)"
  by code_simp

section \<open>The line parser: three parts or nothing\<close>

lemma py_split_hit:
  "sep \<notin> set p \<Longrightarrow> py_split sep (Suc k) (p @ sep # r) = p # py_split sep k r"
proof -
  assume a: "sep \<notin> set p"
  then have "dropWhile (\<lambda>c. c \<noteq> sep) (p @ sep # r) = sep # r"
    by (induction p) auto
  moreover from a have "takeWhile (\<lambda>c. c \<noteq> sep) (p @ sep # r) = p"
    by (induction p) auto
  ultimately show ?thesis by simp
qed

lemma dropWhile_sep_count:
  "dropWhile (\<lambda>c. c \<noteq> sep) s = x # rest \<Longrightarrow> count_list s sep = Suc (count_list rest sep)"
  by (induction s) (auto split: if_splits)

lemma dropWhile_sep_Nil:
  "dropWhile (\<lambda>c. c \<noteq> sep) s = [] \<Longrightarrow> count_list s sep = 0"
  by (induction s) (auto split: if_splits)

lemma py_split_length: "length (py_split sep k s) = Suc (min k (count_list s sep))"
proof (induction k arbitrary: s)
  case 0
  then show ?case by simp
next
  case (Suc k)
  show ?case
  proof (cases "dropWhile (\<lambda>c. c \<noteq> sep) s")
    case Nil
    then have "count_list s sep = 0" by (rule dropWhile_sep_Nil)
    with Nil show ?thesis by (simp del: dropWhile_eq_Nil_conv)
  next
    case (Cons x rest)
    then show ?thesis using Suc.IH[of rest] by (simp add: dropWhile_sep_count)
  qed
qed

lemma py_split_join: "py_join [sep] (py_split sep k s) = s"
proof (induction k arbitrary: s)
  case 0
  then show ?case by simp
next
  case (Suc k)
  show ?case
  proof (cases "dropWhile (\<lambda>c. c \<noteq> sep) s")
    case Nil
    then show ?thesis by (simp del: dropWhile_eq_Nil_conv)
  next
    case (Cons x rest)
    then have x: "x = sep" using hd_dropWhile[of "\<lambda>c. c \<noteq> sep" s] by force
    have s: "s = takeWhile (\<lambda>c. c \<noteq> sep) s @ x # rest"
      using takeWhile_dropWhile_id[of "\<lambda>c. c \<noteq> sep" s] Cons by simp
    obtain y ys where ys: "py_split sep k rest = y # ys"
      by (cases "py_split sep k rest") (use py_split_length[of sep k rest] in auto)
    have "py_join [sep] (py_split sep (Suc k) s) =
          takeWhile (\<lambda>c. c \<noteq> sep) s @ [sep] @ py_join [sep] (py_split sep k rest)"
      using Cons ys by simp
    also have "\<dots> = takeWhile (\<lambda>c. c \<noteq> sep) s @ sep # rest" using Suc.IH[of rest] by simp
    finally show ?thesis using s x by simp
  qed
qed

lemma py_split_three:
  assumes "CHR '':'' \<notin> set p" "CHR '':'' \<notin> set n"
  shows "py_split (CHR '':'') 2 (p @ '':'' @ n @ '':'' @ r) = [p, n, r]"
proof -
  have 1: "py_split (CHR '':'') (Suc (Suc 0)) (p @ CHR '':'' # (n @ CHR '':'' # r)) =
           p # py_split (CHR '':'') (Suc 0) (n @ CHR '':'' # r)"
    using assms(1) by (rule py_split_hit)
  have 2: "py_split (CHR '':'') (Suc 0) (n @ CHR '':'' # r) = n # py_split (CHR '':'') 0 r"
    using assms(2) by (rule py_split_hit)
  have 3: "p @ '':'' @ n @ '':'' @ r = p @ CHR '':'' # (n @ CHR '':'' # r)" by simp
  show ?thesis unfolding 3 numeral_2_eq_2 1 2 by simp
qed

lemma rstrip_Nil: "rstrip [] = []"
  by (simp add: rstrip_def)

lemma parse_line_parts:
  assumes "CHR '':'' \<notin> set p" "CHR '':'' \<notin> set n"
  shows "parse_line (p @ '':'' @ n @ '':'' @ r) =
           Some (strip p, (case py_int (strip n) of Some v \<Rightarrow> v | None \<Rightarrow> 0), rstrip r)"
  using py_split_three[OF assms, of r] by (simp add: parse_line_def Let_def rstrip_Nil)

lemma parse_line_few: "count_list line (CHR '':'') < 2 \<Longrightarrow> parse_line line = None"
  by (simp add: parse_line_def Let_def py_split_length)

lemma dropWhile_sep_Cons:
  "0 < count_list s sep \<Longrightarrow> \<exists>rest. dropWhile (\<lambda>c. c \<noteq> sep) s = sep # rest"
  by (induction s) (auto split: if_splits)

lemma split_at_sep:
  assumes "dropWhile (\<lambda>c. c \<noteq> sep) s = sep # rest"
  shows "s = takeWhile (\<lambda>c. c \<noteq> sep) s @ sep # rest"
  using takeWhile_dropWhile_id[of "\<lambda>c. c \<noteq> sep" s] assms by simp

lemma parse_line_Some_parts:
  assumes "parse_line line = Some (f, n, c)"
  shows "2 \<le> count_list line (CHR '':'')"
proof (rule ccontr)
  assume "\<not> 2 \<le> count_list line (CHR '':'')"
  then have "length (py_split (CHR '':'') 2 line) < 3" by (simp add: py_split_length)
  then have "parse_line line = None" by (simp add: parse_line_def Let_def)
  with assms show False by simp
qed

lemma parse_line_decomp:
  assumes "parse_line line = Some (f, n, c)"
  shows "\<exists>p m r. line = p @ '':'' @ m @ '':'' @ r \<and> CHR '':'' \<notin> set p \<and> CHR '':'' \<notin> set m"
proof -
  from assms have cnt: "2 \<le> count_list line (CHR '':'')" by (rule parse_line_Some_parts)
  then have "0 < count_list line (CHR '':'')" by linarith
  then have "\<exists>rest. dropWhile (\<lambda>c. c \<noteq> CHR '':'') line = CHR '':'' # rest"
    by (rule dropWhile_sep_Cons)
  then obtain r1 where d1: "dropWhile (\<lambda>c. c \<noteq> CHR '':'') line = CHR '':'' # r1" ..
  have "count_list line (CHR '':'') = Suc (count_list r1 (CHR '':''))"
    using d1 by (rule dropWhile_sep_count)
  with cnt have "0 < count_list r1 (CHR '':'')" by linarith
  then have "\<exists>rest. dropWhile (\<lambda>c. c \<noteq> CHR '':'') r1 = CHR '':'' # rest"
    by (rule dropWhile_sep_Cons)
  then obtain r2 where d2: "dropWhile (\<lambda>c. c \<noteq> CHR '':'') r1 = CHR '':'' # r2" ..
  define p where "p = takeWhile (\<lambda>c. c \<noteq> CHR '':'') line"
  define m where "m = takeWhile (\<lambda>c. c \<noteq> CHR '':'') r1"
  have l1: "line = p @ CHR '':'' # r1" unfolding p_def using d1 by (rule split_at_sep)
  have l2: "r1 = m @ CHR '':'' # r2" unfolding m_def using d2 by (rule split_at_sep)
  have "p @ CHR '':'' # r1 = p @ '':'' @ m @ '':'' @ r2"
    by (subst l2) simp
  with l1 have a: "line = p @ '':'' @ m @ '':'' @ r2" by (rule trans)
  have b: "CHR '':'' \<notin> set p"
    unfolding p_def using set_takeWhileD[of "CHR '':''" "\<lambda>c. c \<noteq> CHR '':''" line] by blast
  have c: "CHR '':'' \<notin> set m"
    unfolding m_def using set_takeWhileD[of "CHR '':''" "\<lambda>c. c \<noteq> CHR '':''" r1] by blast
  show ?thesis
    by (rule exI[of _ p], rule exI[of _ m], rule exI[of _ r2]) (intro conjI a b c)
qed

lemma py_int_nonneg:
  "py_int s = Some v \<Longrightarrow> \<not> starts_with ''-'' s \<Longrightarrow> 0 \<le> v"
  by (cases s) (auto simp: py_int_def split: if_splits)

lemma dropWhile_replicate: "P x \<Longrightarrow> dropWhile P (replicate k x @ ys) = dropWhile P ys"
  by (induction k) simp_all

lemma rstrip_newline_LF: "rstrip_newline (s @ replicate k LF) = rstrip_newline s"
  by (simp add: rstrip_newline_def dropWhile_replicate)

lemma rstrip_newline_colon: "rstrip_newline (s @ '':'') = s @ '':''"
  by (simp add: rstrip_newline_def)

lemma collect_skip_empty: "rstrip_newline ln = [] \<Longrightarrow> collect fs (ln # rest) = collect fs rest"
  by simp

lemma collect_skip_unparsed:
  "parse_line (rstrip_newline ln) = None \<Longrightarrow> collect fs (ln # rest) = collect fs rest"
  by (simp add: Let_def)

lemma collect_keep:
  "rstrip_newline ln \<noteq> [] \<Longrightarrow> parse_line (rstrip_newline ln) = Some parsed \<Longrightarrow>
   make_item fs parsed = Inr item \<Longrightarrow> collect fs rest = Inr items \<Longrightarrow>
   collect fs (ln # rest) = Inr (item # items)"
  by (simp add: Let_def)

lemma collect_raise:
  "rstrip_newline ln \<noteq> [] \<Longrightarrow> parse_line (rstrip_newline ln) = Some parsed \<Longrightarrow>
   make_item fs parsed = Inl e \<Longrightarrow> collect fs (ln # rest) = Inl e"
  by (simp add: Let_def)

text \<open>
  C3. The parser splits a line on its first two colons into exactly three parts, path,
  line number and remainder; a line with fewer than two colons gives no finding; a line
  number that \<^verbatim>\<open>int\<close> rejects becomes 0 and the line still gives a finding; in the reading
  loop a line that is empty once its line feed is removed is skipped before parsing, a
  line the parser rejects is skipped, and a parsed line gives the next finding of the run
  whenever building it raises nothing (the test whether the referenced file exists is the
  one step of the loop that can raise).
\<close>

theorem parse_line_three_parts:
  "(count_list line (CHR '':'') < 2 \<longrightarrow> parse_line line = None) \<and>
   (CHR '':'' \<notin> set p \<and> CHR '':'' \<notin> set n \<longrightarrow>
      py_split (CHR '':'') 2 (p @ '':'' @ n @ '':'' @ r) = [p, n, r] \<and>
      parse_line (p @ '':'' @ n @ '':'' @ r) =
        Some (strip p, (case py_int (strip n) of Some v \<Rightarrow> v | None \<Rightarrow> 0), rstrip r)) \<and>
   (CHR '':'' \<notin> set p \<and> CHR '':'' \<notin> set n \<and> py_int (strip n) = None \<longrightarrow>
      parse_line (p @ '':'' @ n @ '':'' @ r) = Some (strip p, 0, rstrip r)) \<and>
   (parse_line (rstrip_newline ln) = None \<longrightarrow> collect fs (ln # rest) = collect fs rest) \<and>
   (rstrip_newline ln = [] \<longrightarrow> collect fs (ln # rest) = collect fs rest) \<and>
   (rstrip_newline ln \<noteq> [] \<and> parse_line (rstrip_newline ln) = Some parsed \<and>
    make_item fs parsed = Inr item \<and> collect fs rest = Inr items \<longrightarrow>
      collect fs (ln # rest) = Inr (item # items))"
proof (intro conjI impI)
  assume "count_list line (CHR '':'') < 2"
  then show "parse_line line = None" by (rule parse_line_few)
next
  assume a: "CHR '':'' \<notin> set p \<and> CHR '':'' \<notin> set n"
  then show "py_split (CHR '':'') 2 (p @ '':'' @ n @ '':'' @ r) = [p, n, r]"
    by (intro py_split_three) simp_all
  from a show "parse_line (p @ '':'' @ n @ '':'' @ r) =
        Some (strip p, (case py_int (strip n) of Some v \<Rightarrow> v | None \<Rightarrow> 0), rstrip r)"
    by (intro parse_line_parts) simp_all
next
  assume a: "CHR '':'' \<notin> set p \<and> CHR '':'' \<notin> set n \<and> py_int (strip n) = None"
  then have "parse_line (p @ '':'' @ n @ '':'' @ r) =
        Some (strip p, (case py_int (strip n) of Some v \<Rightarrow> v | None \<Rightarrow> 0), rstrip r)"
    by (intro parse_line_parts) simp_all
  with a show "parse_line (p @ '':'' @ n @ '':'' @ r) = Some (strip p, 0, rstrip r)" by simp
next
  assume "parse_line (rstrip_newline ln) = None"
  then show "collect fs (ln # rest) = collect fs rest" by (rule collect_skip_unparsed)
next
  assume "rstrip_newline ln = []"
  then show "collect fs (ln # rest) = collect fs rest" by (rule collect_skip_empty)
next
  assume "rstrip_newline ln \<noteq> [] \<and> parse_line (rstrip_newline ln) = Some parsed \<and>
    make_item fs parsed = Inr item \<and> collect fs rest = Inr items"
  then show "collect fs (ln # rest) = Inr (item # items)"
    using collect_keep by blast
qed

theorem parse_line_three_parts_witness:
  "parse_line ''just text'' = None \<and>
   parse_line ''a.c:12'' = None \<and>
   py_split (CHR '':'') 2 ''src/a.c: 12 :  // TODO: fix: this  '' =
     [''src/a.c'', '' 12 '', ''  // TODO: fix: this  ''] \<and>
   parse_line ''src/a.c: 12 :  // TODO: fix: this  '' = Some (''src/a.c'', 12, ''  // TODO: fix: this'') \<and>
   parse_line ''src/a.c:twelve:x'' = Some (''src/a.c'', 0, ''x'') \<and>
   collect (\<lambda>_. NotFound) [[LF], ''a.c:12'' @ [LF], ''src/a.c:twelve:x'' @ [LF]] =
     Inr [\<lparr>i_file = ''src/a.c'', i_line = 0, i_marker = ''NOTE'', i_content = ''x'',
           i_context = ''(file not found)'', i_priority = ''Medium'', i_owner = ''Engineer'',
           i_estimate_hours = 16, i_labels = ''medium;note''\<rparr>]"
proof -
  have c0: "count_list ''just text'' (CHR '':'') < 2" by simp
  have c1: "count_list ''a.c:12'' (CHR '':'') < 2" by simp
  have 1: "parse_line ''just text'' = None"
    using parse_line_three_parts[of "''just text''"] c0 by blast
  have 2: "parse_line ''a.c:12'' = None"
    using parse_line_three_parts[of "''a.c:12''"] c1 by blast
  have h: "CHR '':'' \<notin> set ''src/a.c'' \<and> CHR '':'' \<notin> set '' 12 ''" by simp
  have "py_split (CHR '':'') 2 (''src/a.c'' @ '':'' @ '' 12 '' @ '':'' @ ''  // TODO: fix: this  '') =
          [''src/a.c'', '' 12 '', ''  // TODO: fix: this  ''] \<and>
        parse_line (''src/a.c'' @ '':'' @ '' 12 '' @ '':'' @ ''  // TODO: fix: this  '') =
          Some (strip ''src/a.c'', (case py_int (strip '' 12 '') of Some v \<Rightarrow> v | None \<Rightarrow> 0),
                rstrip ''  // TODO: fix: this  '')"
    using parse_line_three_parts[of _ "''src/a.c''" "'' 12 ''" "''  // TODO: fix: this  ''"] h by blast
  moreover have "strip ''src/a.c'' = ''src/a.c''" by code_simp
  moreover have "py_int (strip '' 12 '') = Some 12" by code_simp
  moreover have "rstrip ''  // TODO: fix: this  '' = ''  // TODO: fix: this''" by code_simp
  ultimately have 3: "py_split (CHR '':'') 2 ''src/a.c: 12 :  // TODO: fix: this  '' =
     [''src/a.c'', '' 12 '', ''  // TODO: fix: this  ''] \<and>
     parse_line ''src/a.c: 12 :  // TODO: fix: this  '' = Some (''src/a.c'', 12, ''  // TODO: fix: this'')"
    by simp
  have h2: "CHR '':'' \<notin> set ''src/a.c'' \<and> CHR '':'' \<notin> set ''twelve'' \<and> py_int (strip ''twelve'') = None"
    by code_simp
  have "parse_line (''src/a.c'' @ '':'' @ ''twelve'' @ '':'' @ ''x'') = Some (strip ''src/a.c'', 0, rstrip ''x'')"
    using parse_line_three_parts[of _ "''src/a.c''" "''twelve''" "''x''"] h2 by blast
  moreover have "strip ''src/a.c'' = ''src/a.c''" by code_simp
  moreover have "rstrip ''x'' = ''x''" by code_simp
  ultimately have 4: "parse_line ''src/a.c:twelve:x'' = Some (''src/a.c'', 0, ''x'')" by simp
  have e: "rstrip_newline [LF] = []" by (simp add: rstrip_newline_def)
  have "rstrip_newline (''a.c:12'' @ [LF]) = ''a.c:12''" by (simp add: rstrip_newline_def)
  with 2 have u: "parse_line (rstrip_newline (''a.c:12'' @ [LF])) = None" by simp
  have k0: "rstrip_newline (''src/a.c:twelve:x'' @ [LF]) = ''src/a.c:twelve:x''"
    by (simp add: rstrip_newline_def)
  have k1: "rstrip_newline (''src/a.c:twelve:x'' @ [LF]) \<noteq> []" unfolding k0 by simp
  have k2: "parse_line (rstrip_newline (''src/a.c:twelve:x'' @ [LF])) = Some (''src/a.c'', 0, ''x'')"
    unfolding k0 by (rule 4)
  have k3: "make_item (\<lambda>_. NotFound) (''src/a.c'', 0, ''x'') =
     Inr \<lparr>i_file = ''src/a.c'', i_line = 0, i_marker = ''NOTE'', i_content = ''x'',
           i_context = ''(file not found)'', i_priority = ''Medium'', i_owner = ''Engineer'',
           i_estimate_hours = 16, i_labels = ''medium;note''\<rparr>"
    by code_simp
  have k4: "collect (\<lambda>_. NotFound) [] = Inr []" by simp
  have 7: "collect (\<lambda>_. NotFound) [''src/a.c:twelve:x'' @ [LF]] =
     Inr [\<lparr>i_file = ''src/a.c'', i_line = 0, i_marker = ''NOTE'', i_content = ''x'',
           i_context = ''(file not found)'', i_priority = ''Medium'', i_owner = ''Engineer'',
           i_estimate_hours = 16, i_labels = ''medium;note''\<rparr>]"
    using parse_line_three_parts[of _ _ _ _ "''src/a.c:twelve:x'' @ [LF]" "\<lambda>_. NotFound" "[]"
        "(''src/a.c'', 0, ''x'')" _ "[]"] k1 k2 k3 k4 by blast
  have "collect (\<lambda>_. NotFound) [[LF], ''a.c:12'' @ [LF], ''src/a.c:twelve:x'' @ [LF]] =
        collect (\<lambda>_. NotFound) [''a.c:12'' @ [LF], ''src/a.c:twelve:x'' @ [LF]]"
    using parse_line_three_parts[of _ _ _ _ "[LF]" "\<lambda>_. NotFound"
        "[''a.c:12'' @ [LF], ''src/a.c:twelve:x'' @ [LF]]"] e by blast
  also have "\<dots> = collect (\<lambda>_. NotFound) [''src/a.c:twelve:x'' @ [LF]]"
    using parse_line_three_parts[of _ _ _ _ "''a.c:12'' @ [LF]" "\<lambda>_. NotFound"
        "[''src/a.c:twelve:x'' @ [LF]]"] u by blast
  finally have 5: "collect (\<lambda>_. NotFound) [[LF], ''a.c:12'' @ [LF], ''src/a.c:twelve:x'' @ [LF]] =
     Inr [\<lparr>i_file = ''src/a.c'', i_line = 0, i_marker = ''NOTE'', i_content = ''x'',
           i_context = ''(file not found)'', i_priority = ''Medium'', i_owner = ''Engineer'',
           i_estimate_hours = 16, i_labels = ''medium;note''\<rparr>]"
    using 7 by simp
  from 1 2 3 4 5 show ?thesis by blast
qed

section \<open>The line number of a finding\<close>

lemma parse_line_field:
  assumes "parse_line line = Some (f, n, c)"
  shows "n = (case py_int (strip (py_split (CHR '':'') 2 line ! 1)) of Some v \<Rightarrow> v | None \<Rightarrow> 0)"
  using assms by (simp add: parse_line_def Let_def split: if_splits)

lemma parse_line_field_decomp:
  assumes "parse_line line = Some (f, n, c)"
  shows "\<exists>p r. line = p @ '':'' @ py_split (CHR '':'') 2 line ! 1 @ '':'' @ r \<and>
           CHR '':'' \<notin> set p \<and> CHR '':'' \<notin> set (py_split (CHR '':'') 2 line ! 1)"
proof -
  from assms obtain p m r where d: "line = p @ '':'' @ m @ '':'' @ r"
    "CHR '':'' \<notin> set p" "CHR '':'' \<notin> set m"
    using parse_line_decomp by blast
  have "py_split (CHR '':'') 2 (p @ '':'' @ m @ '':'' @ r) = [p, m, r]"
    using d(2,3) by (rule py_split_three)
  then have m: "py_split (CHR '':'') 2 line ! 1 = m" unfolding d(1) by simp
  show ?thesis unfolding m using d by blast
qed

text \<open>
  C8, where the claim fails. A line number field with a minus sign gives a negative line
  number, and the field \<^verbatim>\<open>0\<close>, which \<^verbatim>\<open>int\<close> accepts, gives 0 as well: the line number is
  not always at least 0, and 0 does not tell that the field was rejected.
\<close>

theorem source_line_counterexample:
  "parse_line ''a.c:-5:x'' = Some (''a.c'', - 5, ''x'') \<and>
   parse_line ''a.c:0:x'' = Some (''a.c'', 0, ''x'') \<and>
   py_int (strip ''0'') = Some 0"
  by code_simp

text \<open>
  C8, amended. The line number of a finding is the value \<^verbatim>\<open>int\<close> gives for the line number
  field (the text between the first two colons, white space around it removed) when
  \<^verbatim>\<open>int\<close> accepts the field, and 0 when it does not; it is at least 0 whenever the field
  does not begin with a minus sign.
\<close>

theorem source_line_value:
  "parse_line line = Some (f, n, c) \<longrightarrow>
     (\<exists>p r. line = p @ '':'' @ py_split (CHR '':'') 2 line ! 1 @ '':'' @ r \<and>
        CHR '':'' \<notin> set p \<and> CHR '':'' \<notin> set (py_split (CHR '':'') 2 line ! 1)) \<and>
     n = (case py_int (strip (py_split (CHR '':'') 2 line ! 1)) of Some v \<Rightarrow> v | None \<Rightarrow> 0) \<and>
     (py_int (strip (py_split (CHR '':'') 2 line ! 1)) = None \<longrightarrow> n = 0) \<and>
     (\<not> starts_with ''-'' (strip (py_split (CHR '':'') 2 line ! 1)) \<longrightarrow> 0 \<le> n)"
proof
  assume a: "parse_line line = Some (f, n, c)"
  let ?m = "py_split (CHR '':'') 2 line ! 1"
  have d: "\<exists>p r. line = p @ '':'' @ ?m @ '':'' @ r \<and> CHR '':'' \<notin> set p \<and> CHR '':'' \<notin> set ?m"
    using a by (rule parse_line_field_decomp)
  have n: "n = (case py_int (strip ?m) of Some v \<Rightarrow> v | None \<Rightarrow> 0)"
    using a by (rule parse_line_field)
  have z: "py_int (strip ?m) = None \<longrightarrow> n = 0" using n by simp
  have nn: "\<not> starts_with ''-'' (strip ?m) \<longrightarrow> 0 \<le> n"
  proof
    assume s: "\<not> starts_with ''-'' (strip ?m)"
    show "0 \<le> n"
    proof (cases "py_int (strip ?m)")
      case None
      with n show ?thesis by simp
    next
      case (Some v)
      then have "0 \<le> v" using s by (rule py_int_nonneg)
      with Some n show ?thesis by simp
    qed
  qed
  from d n z nn show "(\<exists>p r. line = p @ '':'' @ ?m @ '':'' @ r \<and>
        CHR '':'' \<notin> set p \<and> CHR '':'' \<notin> set ?m) \<and>
     n = (case py_int (strip ?m) of Some v \<Rightarrow> v | None \<Rightarrow> 0) \<and>
     (py_int (strip ?m) = None \<longrightarrow> n = 0) \<and>
     (\<not> starts_with ''-'' (strip ?m) \<longrightarrow> 0 \<le> n)"
    by (intro conjI)
qed

theorem source_line_value_witness:
  "parse_line ''a.c: 12 :x'' = Some (''a.c'', 12, ''x'') \<and>
   py_split (CHR '':'') 2 ''a.c: 12 :x'' ! 1 = '' 12 '' \<and>
   (12::int) = (case py_int (strip '' 12 '') of Some v \<Rightarrow> v | None \<Rightarrow> 0) \<and>
   parse_line ''a.c:1_0:x'' = Some (''a.c'', 10, ''x'') \<and>
   (10::int) = (case py_int (strip (py_split (CHR '':'') 2 ''a.c:1_0:x'' ! 1)) of Some v \<Rightarrow> v | None \<Rightarrow> 0) \<and>
   parse_line ''a.c:1.5:x'' = Some (''a.c'', 0, ''x'') \<and>
   py_int (strip (py_split (CHR '':'') 2 ''a.c:1.5:x'' ! 1)) = None"
proof -
  have h: "parse_line ''a.c: 12 :x'' = Some (''a.c'', 12, ''x'')" by code_simp
  have f: "py_split (CHR '':'') 2 ''a.c: 12 :x'' ! 1 = '' 12 ''" by code_simp
  have "(12::int) = (case py_int (strip (py_split (CHR '':'') 2 ''a.c: 12 :x'' ! 1)) of
                        Some v \<Rightarrow> v | None \<Rightarrow> 0)"
    using source_line_value[of "''a.c: 12 :x''" "''a.c''" 12 "''x''"] h by blast
  then have v: "(12::int) = (case py_int (strip '' 12 '') of Some v \<Rightarrow> v | None \<Rightarrow> 0)"
    unfolding f .
  have h2: "parse_line ''a.c:1_0:x'' = Some (''a.c'', 10, ''x'')" by code_simp
  have v2: "(10::int) = (case py_int (strip (py_split (CHR '':'') 2 ''a.c:1_0:x'' ! 1)) of
                        Some v \<Rightarrow> v | None \<Rightarrow> 0)"
    using source_line_value[of "''a.c:1_0:x''" "''a.c''" 10 "''x''"] h2 by blast
  have h3: "parse_line ''a.c:1.5:x'' = Some (''a.c'', 0, ''x'')" by code_simp
  have n3: "py_int (strip (py_split (CHR '':'') 2 ''a.c:1.5:x'' ! 1)) = None" by code_simp
  from h f v h2 v2 h3 n3 show ?thesis by (intro conjI)
qed

section \<open>A run without the report\<close>

text \<open>
  C9. When the report is absent the run prints that the input file was not found and
  returns without raising: that message is all it does, so it writes no table, no
  document and no index document and does not create the output directory. A run that
  finds the report creates the output directory first (unless creating it raises).
\<close>

theorem missing_input_no_output:
  "(e_report env = Absent \<longrightarrow>
      main env = ([Print (''Input file not found: '' @ INPUT (e_root env))], None) \<and>
      filter writes_output (fst (main env)) = [] \<and>
      snd (main env) = None) \<and>
   (e_report env = Report lns \<and> e_mkdir_error env = None \<longrightarrow>
      hd (fst (main env)) = MakeDirs (OUTDIR (e_root env)) \<and>
      filter writes_output (fst (main env)) \<noteq> [])"
proof (intro conjI impI)
  assume a: "e_report env = Absent"
  then show m: "main env = ([Print (''Input file not found: '' @ INPUT (e_root env))], None)"
    by (simp add: main_def)
  show "filter writes_output (fst (main env)) = []"
    unfolding m by (simp add: writes_output_def)
  show "snd (main env) = None" unfolding m by simp
next
  assume a: "e_report env = Report lns \<and> e_mkdir_error env = None"
  then have m: "main env = process env (Inr lns)" by (simp add: main_def)
  have "\<exists>acts. fst (process env (Inr lns)) = MakeDirs (OUTDIR (e_root env)) # acts"
    using a by (simp add: process_def split: sum.splits prod.splits)
  then obtain acts where p: "fst (main env) = MakeDirs (OUTDIR (e_root env)) # acts"
    unfolding m by blast
  show "hd (fst (main env)) = MakeDirs (OUTDIR (e_root env))" unfolding p by simp
  show "filter writes_output (fst (main env)) \<noteq> []"
    unfolding p by (simp add: writes_output_def)
qed

theorem missing_input_no_output_witness:
  "main \<lparr>e_root = ''/repo'', e_report = Absent, e_fs = (\<lambda>_. NotFound), e_mkdir_error = None,
         e_csv_error = None, e_write_error = (\<lambda>_. None), e_readme_error = None\<rparr> =
     ([Print ''Input file not found: /repo/docs/TODO_GREP_OUTPUT.txt''], None) \<and>
   hd (fst (main \<lparr>e_root = ''/repo'', e_report = Report [], e_fs = (\<lambda>_. NotFound),
         e_mkdir_error = None, e_csv_error = None, e_write_error = (\<lambda>_. None),
         e_readme_error = None\<rparr>)) = MakeDirs ''/repo/docs/issues''"
proof -
  let ?a = "\<lparr>e_root = ''/repo'', e_report = Absent, e_fs = (\<lambda>_. NotFound), e_mkdir_error = None,
         e_csv_error = None, e_write_error = (\<lambda>_. None), e_readme_error = None\<rparr>"
  let ?b = "\<lparr>e_root = ''/repo'', e_report = Report [], e_fs = (\<lambda>_. NotFound),
         e_mkdir_error = None, e_csv_error = None, e_write_error = (\<lambda>_. None),
         e_readme_error = None\<rparr>"
  have i: "INPUT ''/repo'' = ''/repo/docs/TODO_GREP_OUTPUT.txt''"
    by (simp add: INPUT_def path_join_def)
  have o: "OUTDIR ''/repo'' = ''/repo/docs/issues''"
    by (simp add: OUTDIR_def path_join_def)
  have "main ?a = ([Print (''Input file not found: '' @ INPUT (e_root ?a))], None)"
    using missing_input_no_output[of ?a] by simp
  then have 1: "main ?a = ([Print ''Input file not found: /repo/docs/TODO_GREP_OUTPUT.txt''], None)"
    using i by simp
  have "hd (fst (main ?b)) = MakeDirs (OUTDIR (e_root ?b))"
    using missing_input_no_output[of ?b "[]"] by simp
  then have 2: "hd (fst (main ?b)) = MakeDirs ''/repo/docs/issues''" using o by simp
  from 1 2 show ?thesis by (rule conjI)
qed

section \<open>Safe titles: total and idempotent\<close>

lemma filter_dropWhile_not: "filter (\<lambda>c. \<not> P c) (dropWhile P cs) = filter (\<lambda>c. \<not> P c) cs"
  by (induction cs) simp_all

lemma re_sub_runs_delete: "re_sub_runs P [] s = filter (\<lambda>c. \<not> P c) s"
proof (induction "length s" arbitrary: s rule: less_induct)
  case less
  show ?case
  proof (cases s)
    case Nil
    then show ?thesis by simp
  next
    case (Cons c cs)
    have l: "length (dropWhile P cs) < length s"
      using Cons length_dropWhile_le[of P cs] by simp
    have l': "length cs < length s" using Cons by simp
    show ?thesis
    proof (cases "P c")
      case True
      have "re_sub_runs P [] (dropWhile P cs) = filter (\<lambda>c. \<not> P c) (dropWhile P cs)"
        using l by (rule less)
      with True Cons show ?thesis by (simp add: filter_dropWhile_not)
    next
      case False
      have "re_sub_runs P [] cs = filter (\<lambda>c. \<not> P c) cs" using l' by (rule less)
      with False Cons show ?thesis by simp
    qed
  qed
qed

lemma set_re_sub_runs: "set (re_sub_runs P repl s) \<subseteq> set s \<union> set repl"
proof (induction "length s" arbitrary: s rule: less_induct)
  case less
  show ?case
  proof (cases s)
    case Nil
    then show ?thesis by simp
  next
    case (Cons c cs)
    have l: "length (dropWhile P cs) < length s"
      using Cons length_dropWhile_le[of P cs] by simp
    have l': "length cs < length s" using Cons by simp
    have d: "set (dropWhile P cs) \<subseteq> set cs" by (auto dest: set_dropWhileD)
    show ?thesis
    proof (cases "P c")
      case True
      have "set (re_sub_runs P repl (dropWhile P cs)) \<subseteq> set (dropWhile P cs) \<union> set repl"
        using l by (rule less)
      with d have "set (re_sub_runs P repl (dropWhile P cs)) \<subseteq> set cs \<union> set repl" by blast
      with True Cons show ?thesis by auto
    next
      case False
      have "set (re_sub_runs P repl cs) \<subseteq> set cs \<union> set repl" using l' by (rule less)
      with False Cons show ?thesis by auto
    qed
  qed
qed

lemma re_sub_runs_id: "\<forall>c \<in> set s. \<not> P c \<Longrightarrow> re_sub_runs P repl s = s"
  by (induction s) simp_all

lemma set_rstrip: "set (rstrip s) \<subseteq> set s"
  unfolding rstrip_def using set_dropWhileD[of _ py_isspace "rev s"] by auto

lemma set_strip: "set (strip s) \<subseteq> set s"
proof -
  have "set (lstrip s) \<subseteq> set s"
    unfolding lstrip_def using set_dropWhileD[of _ py_isspace s] by auto
  with set_rstrip[of "lstrip s"] show ?thesis unfolding strip_def by blast
qed

lemma length_rstrip: "length (rstrip s) \<le> length s"
  unfolding rstrip_def using length_dropWhile_le[of py_isspace "rev s"] by simp

lemma dropWhile_none: "\<forall>c \<in> set s. \<not> P c \<Longrightarrow> dropWhile P s = s"
  by (cases s) simp_all

lemma strip_id: "\<forall>c \<in> set s. \<not> py_isspace c \<Longrightarrow> strip s = s"
  by (simp add: strip_def lstrip_def rstrip_def dropWhile_none)

lemma title_char_not_space:
  "title_char c \<Longrightarrow> c \<noteq> CHR '' '' \<Longrightarrow> \<not> py_isspace c \<and> c \<noteq> TAB"
  by (auto simp: title_char_def py_isspace_def Let_def)

lemma sanitize_title_chars:
  "\<forall>c \<in> set (sanitize_title s). title_char c \<and> c \<noteq> CHR '' ''"
proof -
  define t1 where "t1 = strip (re_sub_runs (\<lambda>c. \<not> title_char c) [] s)"
  define t2 where "t2 = re_sub_runs (\<lambda>c. c = CHR '' '' \<or> c = TAB) '' '' t1"
  define t3 where "t3 = (if length t2 > 60 then rstrip (take 60 t2) else t2)"
  have r: "sanitize_title s =
     (if t3 = [] then ''todo'' else map (\<lambda>c. if c = CHR '' '' then CHR ''_'' else c) t3)"
    by (simp add: sanitize_title_def Let_def t1_def t2_def t3_def)
  have "set (re_sub_runs (\<lambda>c. \<not> title_char c) [] s) \<subseteq> {c. title_char c}"
    by (auto simp: re_sub_runs_delete)
  with set_strip[of "re_sub_runs (\<lambda>c. \<not> title_char c) [] s"]
  have 1: "set t1 \<subseteq> {c. title_char c}" unfolding t1_def by blast
  have sp: "title_char (CHR '' '')" by (simp add: title_char_def)
  have "set t2 \<subseteq> set t1 \<union> set '' ''" unfolding t2_def by (rule set_re_sub_runs)
  with 1 sp have 2: "set t2 \<subseteq> {c. title_char c}" by auto
  have "set t3 \<subseteq> set t2"
    unfolding t3_def using set_rstrip[of "take 60 t2"] set_take_subset[of 60 t2] by auto
  with 2 have 3: "set t3 \<subseteq> {c. title_char c}" by blast
  have u: "title_char (CHR ''_'')" by (simp add: title_char_def)
  show ?thesis
  proof (cases "t3 = []")
    case True
    then have "sanitize_title s = ''todo''" using r by simp
    then show ?thesis by (simp add: title_char_def)
  next
    case False
    then have "sanitize_title s = map (\<lambda>c. if c = CHR '' '' then CHR ''_'' else c) t3"
      using r by simp
    with 3 u show ?thesis by auto
  qed
qed

lemma sanitize_title_nonempty: "sanitize_title s \<noteq> []"
  by (simp add: sanitize_title_def Let_def)

lemma sanitize_title_length: "length (sanitize_title s) \<le> 60"
proof -
  define t2 where
    "t2 = re_sub_runs (\<lambda>c. c = CHR '' '' \<or> c = TAB) '' ''
            (strip (re_sub_runs (\<lambda>c. \<not> title_char c) [] s))"
  define t3 where "t3 = (if length t2 > 60 then rstrip (take 60 t2) else t2)"
  have r: "sanitize_title s =
     (if t3 = [] then ''todo'' else map (\<lambda>c. if c = CHR '' '' then CHR ''_'' else c) t3)"
    by (simp add: sanitize_title_def Let_def t2_def t3_def)
  have "length t3 \<le> 60"
    unfolding t3_def using length_rstrip[of "take 60 t2"] by auto
  with r show ?thesis by simp
qed

lemma sanitize_title_fixed:
  assumes c: "\<forall>c \<in> set r. title_char c \<and> c \<noteq> CHR '' ''" and n: "r \<noteq> []" and l: "length r \<le> 60"
  shows "sanitize_title r = r"
proof -
  have 1: "re_sub_runs (\<lambda>c. \<not> title_char c) [] r = r"
    using c by (intro re_sub_runs_id) simp
  have 2: "strip r = r" using c by (intro strip_id) (simp add: title_char_not_space)
  have 3: "re_sub_runs (\<lambda>c. c = CHR '' '' \<or> c = TAB) '' '' r = r"
    using c by (intro re_sub_runs_id) (auto dest: title_char_not_space)
  have 4: "map (\<lambda>c. if c = CHR '' '' then CHR ''_'' else c) r = r"
    using c by (intro map_idI) simp
  show ?thesis using n l by (simp add: sanitize_title_def Let_def 1 2 3 4)
qed

lemma sanitize_title_only_other:
  assumes "\<forall>c \<in> set s. \<not> title_char c"
  shows "sanitize_title s = ''todo''"
proof -
  have "filter title_char s = []" using assms by (simp add: filter_empty_conv)
  then have "re_sub_runs (\<lambda>c. \<not> title_char c) [] s = []" by (simp add: re_sub_runs_delete)
  then show ?thesis by (simp add: sanitize_title_def Let_def strip_def lstrip_def rstrip_def)
qed

text \<open>
  C7. The safe title of an annotation text, \<^verbatim>\<open>sanitize_title(content[:80])\<close>, is defined
  for every text and is never empty; it holds only ASCII letters, digits, hyphens and
  underscores and has at most 60 characters; the empty text and a text without any
  allowed character give \<^verbatim>\<open>todo\<close>; the characters outside the allowed set are deleted;
  and the derivation applied to its own result gives that result again.
\<close>

theorem sanitize_title_total_idempotent:
  "sanitize_title (take 80 text) \<noteq> [] \<and>
   (\<forall>c \<in> set (sanitize_title (take 80 text)).
      (48 \<le> (of_char c :: nat) \<and> (of_char c :: nat) \<le> 57) \<or>
      (65 \<le> (of_char c :: nat) \<and> (of_char c :: nat) \<le> 90) \<or>
      (97 \<le> (of_char c :: nat) \<and> (of_char c :: nat) \<le> 122) \<or>
      c = CHR ''-'' \<or> c = CHR ''_'') \<and>
   length (sanitize_title (take 80 text)) \<le> 60 \<and>
   sanitize_title (take 80 []) = ''todo'' \<and>
   ((\<forall>c \<in> set text. \<not> title_char c) \<longrightarrow> sanitize_title (take 80 text) = ''todo'') \<and>
   re_sub_runs (\<lambda>c. \<not> title_char c) [] (take 80 text) = filter title_char (take 80 text) \<and>
   sanitize_title (take 80 (sanitize_title (take 80 text))) = sanitize_title (take 80 text)"
proof (intro conjI)
  let ?r = "sanitize_title (take 80 text)"
  have ch: "\<forall>c \<in> set ?r. title_char c \<and> c \<noteq> CHR '' ''" by (rule sanitize_title_chars)
  show "?r \<noteq> []" by (rule sanitize_title_nonempty)
  show "\<forall>c \<in> set ?r.
      (48 \<le> (of_char c :: nat) \<and> (of_char c :: nat) \<le> 57) \<or>
      (65 \<le> (of_char c :: nat) \<and> (of_char c :: nat) \<le> 90) \<or>
      (97 \<le> (of_char c :: nat) \<and> (of_char c :: nat) \<le> 122) \<or>
      c = CHR ''-'' \<or> c = CHR ''_''"
    using ch by (auto simp: title_char_def Let_def)
  show le: "length ?r \<le> 60" by (rule sanitize_title_length)
  show "sanitize_title (take 80 []) = ''todo''"
    by (simp add: sanitize_title_only_other)
  show "(\<forall>c \<in> set text. \<not> title_char c) \<longrightarrow> ?r = ''todo''"
  proof
    assume "\<forall>c \<in> set text. \<not> title_char c"
    then have "\<forall>c \<in> set (take 80 text). \<not> title_char c"
      using set_take_subset[of 80 "text"] by blast
    then show "?r = ''todo''" by (rule sanitize_title_only_other)
  qed
  show "re_sub_runs (\<lambda>c. \<not> title_char c) [] (take 80 text) = filter title_char (take 80 text)"
    by (simp add: re_sub_runs_delete)
  have "take 80 ?r = ?r" using le by simp
  moreover have "sanitize_title ?r = ?r"
    using ch sanitize_title_nonempty le by (rule sanitize_title_fixed)
  ultimately show "sanitize_title (take 80 ?r) = ?r" by simp
qed

theorem sanitize_title_total_idempotent_witness:
  "sanitize_title (take 80 ''  Fix: the (broken)   parser -- see issue_12!  '') =
     ''Fix_the_broken_parser_--_see_issue_12'' \<and>
   sanitize_title (take 80 ''Fix_the_broken_parser_--_see_issue_12'') =
     ''Fix_the_broken_parser_--_see_issue_12'' \<and>
   sanitize_title (take 80 ''?!... (#)'') = ''todo'' \<and>
   sanitize_title (take 80 ''todo'') = ''todo''"
proof -
  have a: "sanitize_title (take 80 ''  Fix: the (broken)   parser -- see issue_12!  '') =
     ''Fix_the_broken_parser_--_see_issue_12''" by code_simp
  have "sanitize_title (take 80
          (sanitize_title (take 80 ''  Fix: the (broken)   parser -- see issue_12!  ''))) =
        sanitize_title (take 80 ''  Fix: the (broken)   parser -- see issue_12!  '')"
    using sanitize_title_total_idempotent[of "''  Fix: the (broken)   parser -- see issue_12!  ''"]
    by blast
  then have b: "sanitize_title (take 80 ''Fix_the_broken_parser_--_see_issue_12'') =
     ''Fix_the_broken_parser_--_see_issue_12''" unfolding a .
  have c: "sanitize_title (take 80 ''?!...(#)'') = ''todo''"
  proof -
    have "\<forall>c \<in> set ''?!...(#)''. \<not> title_char c" by code_simp
    then show ?thesis
      using sanitize_title_total_idempotent[of "''?!...(#)''"] by blast
  qed
  have c': "sanitize_title (take 80 ''?!... (#)'') = ''todo''" by code_simp
  have "sanitize_title (take 80 (sanitize_title (take 80 ''?!...(#)''))) =
        sanitize_title (take 80 ''?!...(#)'')"
    using sanitize_title_total_idempotent[of "''?!...(#)''"] by blast
  then have d: "sanitize_title (take 80 ''todo'') = ''todo''" unfolding c .
  from a b c' d show ?thesis by (intro conjI)
qed

section \<open>A line with nothing after its second colon\<close>

lemma marker_of_Nil: "marker_of [] = ''NOTE''"
  by (simp add: marker_of_def MARKERS_def)

lemma strip_Nil: "strip [] = []"
  by (simp add: strip_def lstrip_def rstrip_def)

lemma make_item_Inr:
  "(\<forall>e. fs file_path \<noteq> ExistsFails e) \<Longrightarrow> \<exists>item. make_item fs (file_path, n, c) = Inr item"
  by (cases "fs file_path")
     (auto simp: make_item_def fetch_context_def Let_def split: prod.splits)

lemma make_item_fields:
  "make_item fs (file_path, n, c) = Inr item \<Longrightarrow>
   i_file item = file_path \<and> i_line item = n \<and> i_marker item = marker_of c \<and>
   i_content item = strip c"
  by (auto simp: make_item_def Let_def split: sum.splits prod.splits)

lemma parse_line_empty_rest:
  assumes "CHR '':'' \<notin> set p" "CHR '':'' \<notin> set n"
  shows "parse_line (p @ '':'' @ n @ '':'') =
           Some (strip p, (case py_int (strip n) of Some v \<Rightarrow> v | None \<Rightarrow> 0), [])"
  using parse_line_parts[OF assms, of "[]"] by (simp add: rstrip_Nil)

text \<open>
  C10. A line with two colons and nothing after the second is not dropped. The parser
  returns its path and line number with the empty text; in the reading loop (the line
  may still carry its line feed) it gives the next finding of the run, provided the test
  whether the referenced file exists does not raise; that finding has the empty text and
  the marker NOTE, its safe title is \<^verbatim>\<open>todo\<close>, so its document is \<^verbatim>\<open><id>-todo.md\<close>, and the
  title of its document is \<^verbatim>\<open>TODO in <file>:<line>\<close>.
\<close>

theorem empty_remainder_kept:
  "CHR '':'' \<notin> set p \<and> CHR '':'' \<notin> set n \<longrightarrow>
     parse_line (p @ '':'' @ n @ '':'') =
       Some (strip p, (case py_int (strip n) of Some v \<Rightarrow> v | None \<Rightarrow> 0), []) \<and>
     ((\<forall>e. fs (strip p) \<noteq> ExistsFails e) \<and> collect fs rest = Inr items \<longrightarrow>
        (\<exists>item. collect fs ((p @ '':'' @ n @ '':'' @ replicate k LF) # rest) = Inr (item # items) \<and>
           i_file item = strip p \<and>
           i_line item = (case py_int (strip n) of Some v \<Rightarrow> v | None \<Rightarrow> 0) \<and>
           i_content item = [] \<and>
           i_marker item = ''NOTE'' \<and>
           sanitize_title (take 80 (i_content item)) = ''todo'' \<and>
           doc_filename outdir i item = path_join outdir (idstr i @ ''-todo.md'') \<and>
           doc_title item =
             ''TODO in '' @ strip p @ '':'' @
             py_str (case py_int (strip n) of Some v \<Rightarrow> v | None \<Rightarrow> 0)))"
proof (intro impI conjI)
  assume a: "CHR '':'' \<notin> set p \<and> CHR '':'' \<notin> set n"
  let ?v = "case py_int (strip n) of Some v \<Rightarrow> v | None \<Rightarrow> 0"
  let ?ln = "p @ '':'' @ n @ '':'' @ replicate k LF"
  from a show pl: "parse_line (p @ '':'' @ n @ '':'') = Some (strip p, ?v, [])"
    by (intro parse_line_empty_rest) simp_all
  assume b: "(\<forall>e. fs (strip p) \<noteq> ExistsFails e) \<and> collect fs rest = Inr items"
  then obtain item where mi: "make_item fs (strip p, ?v, []) = Inr item"
    using make_item_Inr[of fs "strip p" ?v "[]"] by blast
  have "?ln = (p @ '':'' @ n @ '':'') @ replicate k LF" by simp
  then have "rstrip_newline ?ln = rstrip_newline (p @ '':'' @ n @ '':'')"
    using rstrip_newline_LF[of "p @ '':'' @ n @ '':''" k] by simp
  also have "\<dots> = p @ '':'' @ n @ '':''"
    using rstrip_newline_colon[of "p @ '':'' @ n"] by simp
  finally have rs: "rstrip_newline ?ln = p @ '':'' @ n @ '':''" .
  have ne: "rstrip_newline ?ln \<noteq> []" unfolding rs by simp
  have ps: "parse_line (rstrip_newline ?ln) = Some (strip p, ?v, [])" unfolding rs by (rule pl)
  have co: "collect fs (?ln # rest) = Inr (item # items)"
    using ne ps mi b by (intro collect_keep) simp_all
  have f: "i_file item = strip p \<and> i_line item = ?v \<and> i_marker item = marker_of [] \<and>
           i_content item = strip []"
    using mi by (rule make_item_fields)
  then have c0: "i_content item = []" by (simp add: strip_Nil)
  have st: "sanitize_title (take 80 (i_content item)) = ''todo''"
    unfolding c0 by (simp add: sanitize_title_only_other)
  have df: "doc_filename outdir i item = path_join outdir (idstr i @ ''-todo.md'')"
    by (simp add: doc_filename_def st)
  have dt: "doc_title item = ''TODO in '' @ strip p @ '':'' @ py_str ?v"
    using f c0 by (simp add: doc_title_def)
  show "\<exists>item. collect fs (?ln # rest) = Inr (item # items) \<and>
           i_file item = strip p \<and> i_line item = ?v \<and> i_content item = [] \<and>
           i_marker item = ''NOTE'' \<and>
           sanitize_title (take 80 (i_content item)) = ''todo'' \<and>
           doc_filename outdir i item = path_join outdir (idstr i @ ''-todo.md'') \<and>
           doc_title item = ''TODO in '' @ strip p @ '':'' @ py_str ?v"
    using co f c0 st df dt by (intro exI[of _ item]) (simp add: marker_of_Nil)
qed

theorem empty_remainder_kept_witness:
  "parse_line ''a.c:1:'' = Some (''a.c'', 1, []) \<and>
   (\<exists>item. collect (\<lambda>_. NotFound) [''a.c:1:'' @ [LF]] = Inr [item] \<and>
      i_file item = ''a.c'' \<and> i_line item = 1 \<and> i_content item = [] \<and>
      i_marker item = ''NOTE'' \<and>
      sanitize_title (take 80 (i_content item)) = ''todo'' \<and>
      doc_filename ''/repo/docs/issues'' 1 item = ''/repo/docs/issues/0001-todo.md'' \<and>
      doc_title item = ''TODO in a.c:1'')"
proof -
  have h: "CHR '':'' \<notin> set ''a.c'' \<and> CHR '':'' \<notin> set ''1''" by simp
  have g: "(\<forall>e. (\<lambda>_. NotFound) (strip ''a.c'') \<noteq> ExistsFails e) \<and>
           collect (\<lambda>_. NotFound) [] = Inr []" by simp
  have s: "strip ''a.c'' = ''a.c''" by code_simp
  have v: "(case py_int (strip ''1'') of Some v \<Rightarrow> v | None \<Rightarrow> 0) = 1" by code_simp
  have ps: "py_str 1 = ''1''" by code_simp
  have pj: "path_join ''/repo/docs/issues'' (idstr 1 @ ''-todo.md'') = ''/repo/docs/issues/0001-todo.md''"
    by code_simp
  have r: "''a.c'' @ '':'' @ ''1'' @ '':'' @ replicate 1 LF = ''a.c:1:'' @ [LF]" by simp
  have t: "parse_line (''a.c'' @ '':'' @ ''1'' @ '':'') =
       Some (strip ''a.c'', (case py_int (strip ''1'') of Some v \<Rightarrow> v | None \<Rightarrow> 0), []) \<and>
     (\<exists>item. collect (\<lambda>_. NotFound) ((''a.c'' @ '':'' @ ''1'' @ '':'' @ replicate 1 LF) # []) =
               Inr (item # []) \<and>
           i_file item = strip ''a.c'' \<and>
           i_line item = (case py_int (strip ''1'') of Some v \<Rightarrow> v | None \<Rightarrow> 0) \<and>
           i_content item = [] \<and>
           i_marker item = ''NOTE'' \<and>
           sanitize_title (take 80 (i_content item)) = ''todo'' \<and>
           doc_filename ''/repo/docs/issues'' 1 item =
             path_join ''/repo/docs/issues'' (idstr 1 @ ''-todo.md'') \<and>
           doc_title item =
             ''TODO in '' @ strip ''a.c'' @ '':'' @
             py_str (case py_int (strip ''1'') of Some v \<Rightarrow> v | None \<Rightarrow> 0))"
    using empty_remainder_kept[of "''a.c''" "''1''" "\<lambda>_. NotFound" "[]" "[]" 1
        "''/repo/docs/issues''" 1] h g by blast
  show ?thesis using t unfolding s v ps pj r by simp
qed

section \<open>Identifiers: 1 to N in input order\<close>

lemma py_enumerate_nth:
  "py_enumerate i xs = map (\<lambda>k. (i + int k, xs ! k)) [0..<length xs]"
proof (induction xs arbitrary: i)
  case Nil
  then show ?case by simp
next
  case (Cons x xs)
  have "[0..<length (x # xs)] = 0 # map Suc [0..<length xs]"
    by (simp add: upt_conv_Cons map_Suc_upt del: upt_Suc)
  then have "map (\<lambda>k. (i + int k, (x # xs) ! k)) [0..<length (x # xs)] =
             (i, x) # map (\<lambda>k. (i + 1 + int k, xs ! k)) [0..<length xs]"
    by (simp add: comp_def add.assoc)
  with Cons[of "i + 1"] show ?case by simp
qed








section \<open>The context window\<close>

lemma map_nth_upt_take_drop:
  "b \<le> length xs \<Longrightarrow> map ((!) xs) [a..<b] = take (b - a) (drop a xs)"
  by (rule nth_equalityI) simp_all

lemma py_slice_nonneg:
  assumes "0 \<le> s" "0 \<le> e" "e \<le> int (length xs)"
  shows "py_slice xs s e = map ((!) xs) [nat s..<nat e]"
proof (cases "s \<le> int (length xs)")
  case True
  have b: "nat e \<le> length xs" using assms by linarith
  have "py_slice xs s e = take (nat (e - s)) (drop (nat s) xs)"
    using assms True by (simp add: py_slice_def Let_def min_def)
  also have "nat (e - s) = nat e - nat s" using assms by linarith
  finally show ?thesis using b by (simp add: map_nth_upt_take_drop)
next
  case False
  then have "nat e \<le> nat s" using assms by linarith
  then have "[nat s..<nat e] = []" by simp
  moreover have "py_slice xs s e = []"
    using assms False by (simp add: py_slice_def Let_def min_def)
  ultimately show ?thesis by simp
qed

lemma py_enumerate_upt:
  "py_enumerate (int a) (map ((!) xs) [a..<b]) = map (\<lambda>i. (int i, xs ! i)) [a..<b]"
  by (rule nth_equalityI) (simp_all add: py_enumerate_nth)

text \<open>
  Where the window is the one the description gives: for every line number from -3 on
  (so for every line number that is not negative) the snippet holds the lines with the
  indices from \<^verbatim>\<open>max(0, line_no - 4)\<close> up to, not including, \<^verbatim>\<open>min(len(all_lines), line_no + 3)\<close>,
  each after its number in the file, a colon and a space; these are seven lines when
  neither bound is clipped.
\<close>

lemma context_snippet_window:
  assumes "- 3 \<le> line_no"
  shows "context_snippet all_lines line_no =
           py_join [LF]
             (map (\<lambda>i. py_str (int i + 1) @ '': '' @ all_lines ! i)
                [nat (max 0 (line_no - 4))..<nat (min (int (length all_lines)) (line_no + 3))])"
proof -
  let ?s = "max 0 (line_no - 4)"
  let ?e = "min (int (length all_lines)) (line_no + 3)"
  have s: "0 \<le> ?s" by simp
  have e: "0 \<le> ?e" using assms by simp
  have el: "?e \<le> int (length all_lines)" by simp
  have sl: "py_slice all_lines ?s ?e = map ((!) all_lines) [nat ?s..<nat ?e]"
    using s e el by (rule py_slice_nonneg)
  have "py_enumerate ?s (map ((!) all_lines) [nat ?s..<nat ?e]) =
        py_enumerate (int (nat ?s)) (map ((!) all_lines) [nat ?s..<nat ?e])"
    using s by simp
  also have "\<dots> = map (\<lambda>i. (int i, all_lines ! i)) [nat ?s..<nat ?e]"
    by (rule py_enumerate_upt)
  finally have en: "py_enumerate ?s (py_slice all_lines ?s ?e) =
        map (\<lambda>i. (int i, all_lines ! i)) [nat ?s..<nat ?e]"
    unfolding sl .
  show ?thesis
    unfolding context_snippet_def Let_def en by (simp add: comp_def)
qed

lemma context_snippet_seven:
  assumes "4 \<le> line_no" "line_no + 3 \<le> int (length all_lines)"
  shows "length [nat (max 0 (line_no - 4))..<nat (min (int (length all_lines)) (line_no + 3))] = 7"
  using assms by (simp add: max_def min_def)

text \<open>
  C6. The description of the window fails for a line number below -3, which a report line
  such as \<^verbatim>\<open>a.c:-5:x\<close> gives. There \<^verbatim>\<open>min(len(all_lines), line_no + 3)\<close> is negative and the
  slice \<^verbatim>\<open>all_lines[start:end]\<close> counts a negative end from the end of the list: for a file of
  ten lines and the line number -5 the snippet holds the first eight lines of the file,
  while no index lies between \<^verbatim>\<open>max(0, -9)\<close> and \<^verbatim>\<open>min(10, -2)\<close>. The lower bound is clipped at 0
  in the code, the upper bound is not.
\<close>

theorem context_window_negative_line:
  "parse_line ''a.c:-5:x'' = Some (''a.c'', - 5, ''x'') \<and>
   fetch_context
     (Lines [''l1'', ''l2'', ''l3'', ''l4'', ''l5'', ''l6'', ''l7'', ''l8'', ''l9'', ''l10'']) (- 5) =
     Inr (py_join [LF]
       [''1: l1'', ''2: l2'', ''3: l3'', ''4: l4'', ''5: l5'', ''6: l6'', ''7: l7'', ''8: l8'']) \<and>
   [nat (max 0 (- 5 - 4))..<nat (min (int 10) (- 5 + 3))] = [] \<and>
   filter (\<lambda>i. max 0 (- 5 - 4) \<le> int i \<and> int i < min (int 10) (- 5 + 3)) [0..<10] = []"
  by code_simp

section \<open>The table read back\<close>


























end
